theory Spec2Isabelle
  imports Complex_Main "HOL-Library.Char_ord" "HOL-Library.List_Lexorder"
begin

section \<open>Values of the input records\<close>

text \<open>
  The engine \<^verbatim>\<open>analyze_api_logs\<close> of \<^verbatim>\<open>function.py\<close> receives a list of
  dictionaries decoded from JSON. A field value is what the code can observe of it:
  \<^verbatim>\<open>None\<close>, a boolean, an integer, a float, a string, or a container (list or
  dict), of which the code only observes whether it is empty (its truth value) and that it
  cannot be a dictionary key. Python's unbounded integers are \<open>int\<close>. Floats are
  idealised as exact rationals: every quotient, product and comparison of the source is
  computed exactly, NaN and the infinities are not values of a field.
\<close>

datatype pyval =
    PNone
  | PBool bool
  | PInt int
  | PFloat rat
  | PStr string
  | PContainer bool

text \<open>An entry of the list is a dictionary, or anything else (on which \<^verbatim>\<open>.get\<close> raises).\<close>

datatype entry = NotADict | Dict "string \<rightharpoonup> pyval"

datatype py_error = ValueError | TypeError | AttributeError | IndexError

text \<open>\<^verbatim>\<open>entry.get(k)\<close>: the value, \<^verbatim>\<open>None\<close> for an absent key, AttributeError on a non-dictionary.\<close>

fun get :: "entry \<Rightarrow> string \<Rightarrow> py_error + pyval" where
  "get NotADict k = Inl AttributeError"
| "get (Dict d) k = (case d k of None \<Rightarrow> Inr PNone | Some v \<Rightarrow> Inr v)"

text \<open>The truth value of a Python object, as \<^verbatim>\<open>not x\<close> and \<^verbatim>\<open>x or y\<close> read it.\<close>

fun truthy :: "pyval \<Rightarrow> bool" where
  "truthy PNone = False"
| "truthy (PBool b) = b"
| "truthy (PInt n) = (n \<noteq> 0)"
| "truthy (PFloat q) = (q \<noteq> 0)"
| "truthy (PStr s) = (s \<noteq> [])"
| "truthy (PContainer nonempty) = nonempty"

definition py_or :: "pyval \<Rightarrow> pyval \<Rightarrow> pyval" where
  "py_or v d = (if truthy v then v else d)"

text \<open>
  Dictionary keys. Python hashes \<^verbatim>\<open>True\<close>, \<^verbatim>\<open>1\<close> and \<^verbatim>\<open>1.0\<close> to the same key, so a
  numeric key is its value; a container is unhashable (\<^verbatim>\<open>TypeError\<close> when used as a key).
\<close>

datatype pykey = KNone | KNum rat | KStr string

fun key_of :: "pyval \<Rightarrow> py_error + pykey" where
  "key_of PNone = Inr KNone"
| "key_of (PBool b) = Inr (KNum (if b then 1 else 0))"
| "key_of (PInt n) = Inr (KNum (of_int n))"
| "key_of (PFloat q) = Inr (KNum q)"
| "key_of (PStr s) = Inr (KStr s)"
| "key_of (PContainer nonempty) = Inl TypeError"

section \<open>Timestamps\<close>

text \<open>
  A \<^verbatim>\<open>datetime\<close>: the wall-clock fields and the UTC offset in microseconds, \<open>None\<close>
  for a naive datetime (a string without offset).
\<close>

record datetime =
  year :: int
  month :: int
  day :: int
  hour :: int
  minute :: int
  second :: int
  microsecond :: int
  utcoffset :: "int option"

definition is_leap :: "int \<Rightarrow> bool" where
  "is_leap y = (y mod 4 = 0 \<and> (y mod 100 \<noteq> 0 \<or> y mod 400 = 0))"

definition days_in_month :: "int \<Rightarrow> int \<Rightarrow> int" where
  "days_in_month y m =
     (if m = 2 then (if is_leap y then 29 else 28)
      else if m = 4 \<or> m = 6 \<or> m = 9 \<or> m = 11 then 30 else 31)"

definition days_before_year :: "int \<Rightarrow> int" where
  "days_before_year y =
     (let p = y - 1 in p * 365 + p div 4 - p div 100 + p div 400)"

definition days_before_month :: "int \<Rightarrow> int \<Rightarrow> int" where
  "days_before_month y m = sum_list (map (days_in_month y) [1..m - 1])"

text \<open>The proleptic Gregorian ordinal of the date; 1970-01-01 has ordinal 719163.\<close>

definition toordinal :: "datetime \<Rightarrow> int" where
  "toordinal t = days_before_year (year t) + days_before_month (year t) (month t) + day t"

text \<open>
  The instant in microseconds since the epoch. A naive datetime is read in the host's
  zone, taken to be UTC.
\<close>

definition epoch_micros :: "datetime \<Rightarrow> int" where
  "epoch_micros t =
     ((toordinal t - 719163) * 86400
        + hour t * 3600 + minute t * 60 + second t) * 1000000
      + microsecond t
      - (case utcoffset t of None \<Rightarrow> 0 | Some off \<Rightarrow> off)"

text \<open>\<^verbatim>\<open>int(t.timestamp())\<close>: the epoch seconds, truncated towards zero as \<^verbatim>\<open>int\<close> does.\<close>

definition timestamp_int :: "datetime \<Rightarrow> int" where
  "timestamp_int t =
     (let m = epoch_micros t in if 0 \<le> m then m div 1000000 else - ((- m) div 1000000))"

text \<open>
  \<^verbatim>\<open>a < b\<close> on datetimes: a naive and an aware datetime cannot be ordered
  (\<^verbatim>\<open>TypeError\<close>); otherwise the instants are compared.
\<close>

definition dt_less :: "datetime \<Rightarrow> datetime \<Rightarrow> py_error + bool" where
  "dt_less a b =
     (if (utcoffset a = None) \<noteq> (utcoffset b = None) then Inl TypeError
      else Inr (epoch_micros a < epoch_micros b))"

subsection \<open>Decimal fields\<close>

definition digit_of :: "char \<Rightarrow> int option" where
  "digit_of c =
     (let n = (of_char c :: int) in if 48 \<le> n \<and> n \<le> 57 then Some (n - 48) else None)"

primrec digits_value :: "int \<Rightarrow> string \<Rightarrow> int option" where
  "digits_value acc [] = Some acc"
| "digits_value acc (c # cs) =
     (case digit_of c of None \<Rightarrow> None | Some d \<Rightarrow> digits_value (10 * acc + d) cs)"

text \<open>The \<open>n\<close> decimal digits of \<open>s\<close> from position \<open>pos\<close>.\<close>

definition field :: "nat \<Rightarrow> nat \<Rightarrow> string \<Rightarrow> int option" where
  "field pos n s =
     (if length s < pos + n then None else digits_value 0 (take n (drop pos s)))"

definition digit_char :: "int \<Rightarrow> char" where
  "digit_char n = char_of (48 + n mod 10)"

definition pad2 :: "int \<Rightarrow> string" where
  "pad2 n = [digit_char (n div 10), digit_char n]"

definition pad4 :: "int \<Rightarrow> string" where
  "pad4 n = [digit_char (n div 1000), digit_char (n div 100), digit_char (n div 10), digit_char n]"

subsection \<open>The standard library's parser\<close>

text \<open>
  \<^verbatim>\<open>datetime.fromisoformat\<close> belongs to the standard library, not to the repository, and
  the engine below takes it as a parameter. This is a model of it as CPython 3.11 implements
  it, for running the engine on concrete records. A string is the list of its UTF-8 bytes.
  The date is \<^verbatim>\<open>YYYY-MM-DD\<close>, \<^verbatim>\<open>YYYYMMDD\<close> or an ISO week date
  (\<^verbatim>\<open>YYYY-Www[-D]\<close>, \<^verbatim>\<open>YYYYWww[D]\<close>); any one character separates it from the time;
  the time is \<^verbatim>\<open>HH\<close>, \<^verbatim>\<open>HH:MM\<close> or \<^verbatim>\<open>HH:MM:SS\<close>, with or without the colons,
  and a fraction of any length after a period or a comma; the offset is \<^verbatim>\<open>Z\<close> or a sign
  followed by a time of the same form. The positions are read as the library's function
  reads them, including what it tolerates.
\<close>

definition is_digit :: "char \<Rightarrow> bool" where
  "is_digit c = (digit_of c \<noteq> None)"

text \<open>The byte at a position; past the end the C string has its terminating zero.\<close>

definition char_at :: "string \<Rightarrow> nat \<Rightarrow> char" where
  "char_at s i = (if i < length s then s ! i else CHR 0x00)"

text \<open>Where the date ends, from the characters at positions 4, 5, 8 and 10.\<close>

definition find_separator :: "string \<Rightarrow> nat option" where
  "find_separator s =
     (let len = length s in
      if len = 7 then Some 7
      else if char_at s 4 = CHR ''-'' then
        (if char_at s 5 = CHR ''W'' then
           (if len < 8 then None
            else if len > 8 \<and> char_at s 8 = CHR ''-'' then
              (if len = 9 then None
               else if len > 10 \<and> is_digit (char_at s 10) then Some 8
               else Some 10)
            else Some 8)
         else Some 10)
      else if char_at s 4 = CHR ''W'' then
        (let idx = 7 + length (takeWhile is_digit (drop 7 s))
         in if idx < 9 then Some idx else if even idx then Some 7 else Some 8)
      else Some 8)"

definition ymd_to_ord :: "int \<Rightarrow> int \<Rightarrow> int \<Rightarrow> int" where
  "ymd_to_ord y m d = days_before_year y + days_before_month y m + d"

text \<open>The date of a proleptic Gregorian ordinal.\<close>

definition ord_to_ymd :: "int \<Rightarrow> int \<times> int \<times> int" where
  "ord_to_ymd ordinal =
     (let o1 = ordinal - 1;
          n400 = o1 div 146097; r400 = o1 mod 146097;
          n100 = r400 div 36524; r100 = r400 mod 36524;
          n4 = r100 div 1461; r4 = r100 mod 1461;
          n1 = r4 div 365; n = r4 mod 365;
          y = n400 * 400 + 1 + n100 * 100 + n4 * 4 + n1
      in if n1 = 4 \<or> n100 = 4 then (y - 1, 12, 31)
         else
           (let m = (n + 50) div 32;
                preceding = days_before_month y m
            in if preceding > n
               then (y, m - 1, n - (preceding - days_in_month y (m - 1)) + 1)
               else (y, m, n - preceding + 1)))"

text \<open>An ISO year, week and day of the week as a date; week 53 exists in long years only.\<close>

definition iso_to_ymd :: "int \<Rightarrow> int \<Rightarrow> int \<Rightarrow> (int \<times> int \<times> int) option" where
  "iso_to_ymd y w d =
     (let first_day = ymd_to_ord y 1 1;
          first_weekday = (first_day + 6) mod 7
      in if (w \<le> 0 \<or> 53 \<le> w)
            \<and> \<not> (w = 53 \<and> (first_weekday = 3 \<or> (first_weekday = 2 \<and> is_leap y)))
         then None
         else if d \<le> 0 \<or> 8 \<le> d then None
         else
           (let week1_monday = first_day - first_weekday + (if first_weekday > 3 then 7 else 0)
            in Some (ord_to_ymd (week1_monday + (w - 1) * 7 + d - 1))))"

definition parse_date :: "string \<Rightarrow> nat \<Rightarrow> (int \<times> int \<times> int) option" where
  "parse_date s sep =
     (case field 0 4 s of
        None \<Rightarrow> None
      | Some y \<Rightarrow>
          (let uses = (char_at s 4 = CHR ''-'');
               p = (if uses then 5 else 4)
           in if char_at s p = CHR ''W'' then
                (case field (p + 1) 2 s of
                   None \<Rightarrow> None
                 | Some w \<Rightarrow>
                     if p + 3 < sep then
                       (if uses \<and> char_at s (p + 3) \<noteq> CHR ''-'' then None
                        else (case field (if uses then p + 4 else p + 3) 1 s of
                                None \<Rightarrow> None
                              | Some d \<Rightarrow> iso_to_ymd y w d))
                     else iso_to_ymd y w 1)
              else
                (case field p 2 s of
                   None \<Rightarrow> None
                 | Some m \<Rightarrow>
                     if uses \<and> char_at s (p + 2) \<noteq> CHR ''-'' then None
                     else (case field (if uses then p + 3 else p + 2) 2 s of
                             None \<Rightarrow> None
                           | Some d \<Rightarrow> Some (y, m, d)))))"

text \<open>
  The loop over hour, minute and second of a time \<open>b\<close> that is followed by the character
  \<open>nxt\<close> (the sign of the offset, or the terminating zero). It ends with the fields and
  whether something is left over, or hands over to the fraction at a position.
\<close>

datatype hms = Done "int list" bool | Fraction "int list" nat

fun hms_loop :: "string \<Rightarrow> char \<Rightarrow> nat \<Rightarrow> nat \<Rightarrow> bool \<Rightarrow> int list \<Rightarrow> hms option" where
  "hms_loop b nxt 0 p has_sep vals = Some (Fraction vals p)"
| "hms_loop b nxt (Suc k) p has_sep vals =
     (case field p 2 b of
        None \<Rightarrow> None
      | Some v \<Rightarrow>
          (let c = (if p + 2 < length b then b ! (p + 2) else nxt);
               hs = (if vals = [] then c = CHR '':'' else has_sep)
           in if p + 3 \<ge> length b then Some (Done (vals @ [v]) (c \<noteq> CHR 0x00))
              else if hs \<and> c = CHR '':'' then hms_loop b nxt k (p + 3) hs (vals @ [v])
              else if c = CHR ''.'' \<or> c = CHR '','' then Some (Fraction (vals @ [v]) (p + 3))
              else if \<not> hs then hms_loop b nxt k (p + 2) hs (vals @ [v])
              else None))"

text \<open>Up to six digits of the fraction count; further digits are skipped.\<close>

definition parse_fraction :: "string \<Rightarrow> char \<Rightarrow> nat \<Rightarrow> (int \<times> bool) option" where
  "parse_fraction b nxt p =
     (let to_parse = min 6 (length b - p)
      in case field p to_parse b of
           None \<Rightarrow> None
         | Some f \<Rightarrow>
             (let stop = (case dropWhile is_digit (drop (p + to_parse) b) of
                            [] \<Rightarrow> nxt
                          | c # rest \<Rightarrow> c)
              in Some (f * 10 ^ (6 - to_parse), stop \<noteq> CHR 0x00)))"

definition nth_or_zero :: "int list \<Rightarrow> nat \<Rightarrow> int" where
  "nth_or_zero vals i = (if i < length vals then vals ! i else 0)"

text \<open>Hour, minute, second, microsecond, and whether something is left over.\<close>

definition parse_hh_mm_ss_ff :: "string \<Rightarrow> char \<Rightarrow> (int \<times> int \<times> int \<times> int \<times> bool) option" where
  "parse_hh_mm_ss_ff b nxt =
     (case hms_loop b nxt 3 0 False [] of
        None \<Rightarrow> None
      | Some (Done vals left) \<Rightarrow>
          Some (nth_or_zero vals 0, nth_or_zero vals 1, nth_or_zero vals 2, 0, left)
      | Some (Fraction vals p) \<Rightarrow>
          (case parse_fraction b nxt p of
             None \<Rightarrow> None
           | Some (us, left) \<Rightarrow>
               Some (nth_or_zero vals 0, nth_or_zero vals 1, nth_or_zero vals 2, us, left)))"

text \<open>
  The time and the offset, the offset in microseconds: it must lie strictly within 24
  hours of zero, and an offset of zero whole seconds is UTC whatever its fraction.
\<close>

definition parse_time :: "string \<Rightarrow> (int \<times> int \<times> int \<times> int \<times> int option) option" where
  "parse_time t =
     (let tzpos = length (takeWhile (\<lambda>c. c \<noteq> CHR ''Z'' \<and> c \<noteq> CHR ''+'' \<and> c \<noteq> CHR ''-'') t)
      in case parse_hh_mm_ss_ff (take tzpos t) (char_at t tzpos) of
           None \<Rightarrow> None
         | Some (h, m, s, us, left) \<Rightarrow>
             if tzpos \<ge> length t then (if left then None else Some (h, m, s, us, None))
             else if t ! tzpos = CHR ''Z'' then
               (if tzpos + 1 < length t then None else Some (h, m, s, us, Some 0))
             else
               (case parse_hh_mm_ss_ff (drop (tzpos + 1) t) (CHR 0x00) of
                  None \<Rightarrow> None
                | Some (th, tm, ts, tus, tleft) \<Rightarrow>
                    (let secs = th * 3600 + tm * 60 + ts;
                         off = (if secs = 0 then 0
                                else (if t ! tzpos = CHR ''-'' then - 1 else 1)
                                       * (secs * 1000000 + tus))
                     in if tleft \<or> \<bar>off\<bar> \<ge> 86400 * 1000000 then None
                        else Some (h, m, s, us, Some off))))"

text \<open>The number of bytes of the separator character, from its first byte.\<close>

definition separator_width :: "char \<Rightarrow> nat" where
  "separator_width c =
     (let n = (of_char c :: nat)
      in if n < 128 then 1 else if n div 16 = 14 then 3 else if n div 16 = 15 then 4 else 2)"

definition fromisoformat :: "string \<Rightarrow> datetime option" where
  "fromisoformat s =
     (if length s < 7 then None
      else
        (case find_separator s of
           None \<Rightarrow> None
         | Some sep \<Rightarrow>
             (case parse_date s sep of
                None \<Rightarrow> None
              | Some (y, mo, d) \<Rightarrow>
                  (case (if sep < length s
                         then parse_time (drop (sep + separator_width (s ! sep)) s)
                         else Some (0, 0, 0, 0, None)) of
                     None \<Rightarrow> None
                   | Some (h, mi, sec, us, off) \<Rightarrow>
                       if 1 \<le> y \<and> y \<le> 9999 \<and> 1 \<le> mo \<and> mo \<le> 12
                          \<and> 1 \<le> d \<and> d \<le> days_in_month y mo
                          \<and> h < 24 \<and> mi < 60 \<and> sec < 60
                       then Some \<lparr>year = y, month = mo, day = d, hour = h, minute = mi,
                                  second = sec, microsecond = us, utcoffset = off\<rparr>
                       else None))))"

subsection \<open>Parsing a timestamp field\<close>

text \<open>\<^verbatim>\<open>ts.replace('Z', '+00:00')\<close> replaces every occurrence of the letter.\<close>

primrec replace_Z :: "string \<Rightarrow> string" where
  "replace_Z [] = []"
| "replace_Z (c # cs) = (if c = CHR ''Z'' then ''+00:00'' @ replace_Z cs else c # replace_Z cs)"

text \<open>
  \<^verbatim>\<open>_parse_timestamp\<close>: a falsy value is missing; a value that is not a string has no
  \<^verbatim>\<open>replace\<close>, and the AttributeError is turned into the same \<^verbatim>\<open>ValueError\<close> as a
  string the parser rejects. The library function \<^verbatim>\<open>datetime.fromisoformat\<close> is the
  parameter \<open>fromiso\<close>, here and in every function of the engine that calls this one: the
  engine is defined for whatever strings the library accepts, \<open>None\<close> standing for
  the exception it raises.
\<close>

definition parse_timestamp :: "(string \<Rightarrow> datetime option) \<Rightarrow> pyval \<Rightarrow> py_error + datetime" where
  "parse_timestamp fromiso ts =
     (if \<not> truthy ts then Inl ValueError
      else case ts of
        PStr s \<Rightarrow> (case fromiso (replace_Z s) of None \<Rightarrow> Inl ValueError | Some t \<Rightarrow> Inr t)
      | _ \<Rightarrow> Inl ValueError)"

section \<open>Validation of one record\<close>

definition bind_err :: "py_error + 'a \<Rightarrow> ('a \<Rightarrow> py_error + 'b) \<Rightarrow> py_error + 'b" where
  "bind_err x f = (case x of Inl e \<Rightarrow> Inl e | Inr v \<Rightarrow> f v)"

text \<open>\<^verbatim>\<open>isinstance(rt, (int, float))\<close>: a boolean is an integer in Python.\<close>

fun number_of :: "pyval \<Rightarrow> rat option" where
  "number_of (PBool b) = Some (if b then 1 else 0)"
| "number_of (PInt n) = Some (of_int n)"
| "number_of (PFloat q) = Some q"
| "number_of v = None"

text \<open>\<^verbatim>\<open>isinstance(status, int)\<close>.\<close>

fun integer_of :: "pyval \<Rightarrow> int option" where
  "integer_of (PBool b) = Some (if b then 1 else 0)"
| "integer_of (PInt n) = Some n"
| "integer_of v = None"

text \<open>A record that passed validation: the values the loop body goes on with.\<close>

record event =
  ev_ts :: datetime
  ev_endpoint :: pyval
  ev_method :: pyval
  ev_rt :: rat
  ev_status :: int
  ev_user :: pyval

text \<open>
  The body of the \<^verbatim>\<open>try\<close> block of the loop (lines 66 to 79). \<open>Inl\<close> is an exception
  raised inside the block, \<open>Inr None\<close> one of its two \<^verbatim>\<open>continue\<close> statements. The two
  size fields are read there and used nowhere; reading them cannot raise once the first
  \<^verbatim>\<open>.get\<close> succeeded.
\<close>

definition read_entry :: "(string \<Rightarrow> datetime option) \<Rightarrow> entry \<Rightarrow> py_error + event option" where
  "read_entry fromiso entry =
     bind_err (get entry ''timestamp'') (\<lambda>tsv.
     bind_err (parse_timestamp fromiso tsv) (\<lambda>ts.
     bind_err (get entry ''endpoint'') (\<lambda>ep.
     bind_err (get entry ''method'') (\<lambda>m.
     bind_err (get entry ''response_time_ms'') (\<lambda>rt.
     bind_err (get entry ''status_code'') (\<lambda>status.
     bind_err (get entry ''user_id'') (\<lambda>user.
       (case number_of rt of
          None \<Rightarrow> Inr None
        | Some r \<Rightarrow>
            if r < 0 then Inr None
            else (case integer_of status of
                    None \<Rightarrow> Inr None
                  | Some st \<Rightarrow>
                      Inr (Some \<lparr>ev_ts = ts,
                                 ev_endpoint = py_or ep (PStr ''/''),
                                 ev_method = py_or m (PStr ''GET''),
                                 ev_rt = r,
                                 ev_status = st,
                                 ev_user = py_or user (PStr ''anonymous'')\<rparr>))))))))))"

text \<open>\<^verbatim>\<open>except Exception: continue\<close>: every exception of the block skips the record.\<close>

definition validate :: "(string \<Rightarrow> datetime option) \<Rightarrow> entry \<Rightarrow> event option" where
  "validate fromiso entry = (case read_entry fromiso entry of Inl e \<Rightarrow> None | Inr r \<Rightarrow> r)"

section \<open>The accumulators\<close>

text \<open>
  A \<^verbatim>\<open>dict\<close>, \<^verbatim>\<open>defaultdict\<close> or \<^verbatim>\<open>Counter\<close> is an association list in insertion
  order, which is the order Python iterates it in. \<open>upd_default k d f\<close> is
  \<^verbatim>\<open>m[k] = f(m[k])\<close> on a \<^verbatim>\<open>defaultdict\<close> with default \<open>d\<close>: a new key goes last.
\<close>

fun upd_default :: "'k \<Rightarrow> 'v \<Rightarrow> ('v \<Rightarrow> 'v) \<Rightarrow> ('k \<times> 'v) list \<Rightarrow> ('k \<times> 'v) list" where
  "upd_default k d f [] = [(k, f d)]"
| "upd_default k d f ((k', v) # rest) =
     (if k' = k then (k', f v) # rest else (k', v) # upd_default k d f rest)"

text \<open>\<^verbatim>\<open>counter[k] += 1\<close>.\<close>

definition incr :: "'k \<Rightarrow> ('k \<times> nat) list \<Rightarrow> ('k \<times> nat) list" where
  "incr k c = upd_default k 0 Suc c"

text \<open>
  The per-endpoint aggregate. \<open>min_response\<close> starts at \<^verbatim>\<open>math.inf\<close> and
  \<open>max_response\<close> at \<^verbatim>\<open>-math.inf\<close>, both \<open>None\<close> here.
\<close>

record endpoint_data =
  count :: nat
  ep_sum_response :: rat
  min_response :: "rat option"
  max_response :: "rat option"
  errors :: nat
  status_counter :: "(int \<times> nat) list"
  methods :: "(pykey \<times> nat) list"

definition new_endpoint_data :: endpoint_data where
  "new_endpoint_data =
     \<lparr>count = 0, ep_sum_response = 0, min_response = None, max_response = None,
      errors = 0, status_counter = [], methods = []\<rparr>"

text \<open>Lines 95 to 102, with the method already hashed.\<close>

definition add_to_endpoint :: "rat \<Rightarrow> int \<Rightarrow> pykey \<Rightarrow> endpoint_data \<Rightarrow> endpoint_data" where
  "add_to_endpoint rt status method d =
     d\<lparr>count := count d + 1,
       ep_sum_response := ep_sum_response d + rt,
       min_response := (case min_response d of None \<Rightarrow> Some rt | Some m \<Rightarrow> Some (min m rt)),
       max_response := (case max_response d of None \<Rightarrow> Some rt | Some m \<Rightarrow> Some (max m rt)),
       errors := (if status \<ge> 400 then errors d + 1 else errors d),
       status_counter := incr status (status_counter d),
       methods := incr method (methods d)\<rparr>"

record acc =
  total :: nat
  sum_response :: rat
  earliest :: "datetime option"
  latest :: "datetime option"
  hourly :: "(string \<times> nat) list"
  endpoint_info :: "(pykey \<times> endpoint_data) list"
  user_counts :: "(pykey \<times> nat) list"
  per_endpoint_timestamps :: "(pykey \<times> datetime list) list"
  per_endpoint_errors :: "(pykey \<times> datetime list) list"

definition init_acc :: acc where
  "init_acc =
     \<lparr>total = 0, sum_response = 0, earliest = None, latest = None, hourly = [],
      endpoint_info = [], user_counts = [], per_endpoint_timestamps = [],
      per_endpoint_errors = []\<rparr>"

text \<open>
  \<^verbatim>\<open>ts.strftime("%Y-%m-%dT%H:00:00Z")\<close>: the fields of the datetime as it was written,
  whatever its offset, the year in the four digits the library documents, and a literal
  \<^verbatim>\<open>Z\<close>.
\<close>

definition hour_key :: "datetime \<Rightarrow> string" where
  "hour_key t =
     pad4 (year t) @ ''-'' @ pad2 (month t) @ ''-'' @ pad2 (day t) @ ''T'' @ pad2 (hour t)
       @ '':00:00Z''"

text \<open>Lines 85 to 88. Ordering a naive against an aware datetime raises.\<close>

definition update_earliest :: "datetime option \<Rightarrow> datetime \<Rightarrow> py_error + datetime option" where
  "update_earliest e ts =
     (case e of
        None \<Rightarrow> Inr (Some ts)
      | Some t \<Rightarrow> bind_err (dt_less ts t) (\<lambda>b. Inr (Some (if b then ts else t))))"

definition update_latest :: "datetime option \<Rightarrow> datetime \<Rightarrow> py_error + datetime option" where
  "update_latest l ts =
     (case l of
        None \<Rightarrow> Inr (Some ts)
      | Some t \<Rightarrow> bind_err (dt_less t ts) (\<lambda>b. Inr (Some (if b then ts else t))))"

text \<open>
  Lines 84 to 107: the part of the loop body after validation. It is outside the
  \<^verbatim>\<open>try\<close> block, so what it raises leaves \<^verbatim>\<open>analyze_api_logs\<close>.
\<close>

definition accumulate :: "acc \<Rightarrow> event \<Rightarrow> py_error + acc" where
  "accumulate a ev =
     bind_err (update_earliest (earliest a) (ev_ts ev)) (\<lambda>e.
     bind_err (update_latest (latest a) (ev_ts ev)) (\<lambda>l.
     bind_err (key_of (ev_endpoint ev)) (\<lambda>endpoint.
     bind_err (key_of (ev_method ev)) (\<lambda>method.
     bind_err (key_of (ev_user ev)) (\<lambda>user.
       Inr (a\<lparr>sum_response := sum_response a + ev_rt ev,
              earliest := e,
              latest := l,
              hourly := incr (hour_key (ev_ts ev)) (hourly a),
              endpoint_info :=
                upd_default endpoint new_endpoint_data
                  (add_to_endpoint (ev_rt ev) (ev_status ev) method) (endpoint_info a),
              user_counts := incr user (user_counts a),
              per_endpoint_timestamps :=
                upd_default endpoint [] (\<lambda>ts. ts @ [ev_ts ev]) (per_endpoint_timestamps a),
              per_endpoint_errors :=
                (if ev_status ev \<ge> 400
                 then upd_default endpoint [] (\<lambda>ts. ts @ [ev_ts ev]) (per_endpoint_errors a)
                 else per_endpoint_errors a)\<rparr>))))))"

text \<open>One iteration of the loop of line 62: count, validate, skip or accumulate.\<close>

definition step :: "(string \<Rightarrow> datetime option) \<Rightarrow> acc \<Rightarrow> entry \<Rightarrow> py_error + acc" where
  "step fromiso a entry =
     (let a' = a\<lparr>total := total a + 1\<rparr>
      in case validate fromiso entry of None \<Rightarrow> Inr a' | Some ev \<Rightarrow> accumulate a' ev)"

fun run_loop :: "(string \<Rightarrow> datetime option) \<Rightarrow> acc \<Rightarrow> entry list \<Rightarrow> py_error + acc" where
  "run_loop fromiso a [] = Inr a"
| "run_loop fromiso a (entry # logs) = bind_err (step fromiso a entry) (\<lambda>a'. run_loop fromiso a' logs)"

section \<open>The report\<close>

datatype severity = Medium | High | Critical

record thresholds =
  medium :: rat
  high :: rat
  critical :: rat

definition RESPONSE_THRESHOLDS :: thresholds where
  "RESPONSE_THRESHOLDS = \<lparr>medium = 500, high = 1000, critical = 2000\<rparr>"

definition ERROR_RATE_THRESHOLDS :: thresholds where
  "ERROR_RATE_THRESHOLDS = \<lparr>medium = 5, high = 10, critical = 15\<rparr>"

record summary =
  total_requests :: nat
  time_range_start :: "datetime option"
  time_range_end :: "datetime option"
  avg_response_time_ms :: "rat option"
  error_rate_percentage :: "rat option"

record endpoint_stat =
  endpoint :: pykey
  request_count :: nat
  ep_avg_response_time_ms :: rat
  slowest_request_ms :: "rat option"
  fastest_request_ms :: "rat option"
  error_count :: nat
  most_common_status :: "int option"

text \<open>
  The dictionaries of the two issue kinds and of the four anomaly kinds, fields in the
  order of the source. Timestamps stand for their \<^verbatim>\<open>isoformat()\<close> strings, and the
  \<^verbatim>\<open>time_window\<close> of an error cluster for the two epoch seconds it prints.
\<close>

datatype issue =
    Slow_endpoint pykey rat rat severity
  | High_error_rate pykey rat severity

datatype anomaly =
    Request_spike pykey datetime rat nat severity
  | Response_degradation pykey rat rat severity
  | Error_cluster pykey int int nat severity
  | Unusual_user_behavior pykey nat severity

text \<open>The recommendation sentence, by the endpoint and the count it prints.\<close>

datatype recommendation = Consider_caching pykey nat

record caching_opportunity =
  co_endpoint :: pykey
  potential_cache_hit_rate :: int
  current_requests :: nat
  potential_requests_saved :: int
  estimated_cost_savings_usd :: rat
  recommended_ttl_minutes :: nat
  recommendation_confidence :: string

record report =
  summary :: summary
  endpoint_stats :: "endpoint_stat list"
  performance_issues :: "issue list"
  recommendations :: "recommendation list"
  hourly_distribution :: "(string \<times> nat) list"
  top_users_by_requests :: "(pykey \<times> nat) list"
  anomalies :: "anomaly list"
  caching_opportunities :: "caching_opportunity list"

text \<open>Lines 112 to 126.\<close>

definition empty_report :: report where
  "empty_report =
     \<lparr>summary = \<lparr>total_requests = 0, time_range_start = None, time_range_end = None,
                  avg_response_time_ms = None, error_rate_percentage = None\<rparr>,
      endpoint_stats = [], performance_issues = [], recommendations = [],
      hourly_distribution = [], top_users_by_requests = [], anomalies = [],
      caching_opportunities = []\<rparr>"

subsection \<open>Endpoint statistics and performance issues\<close>

text \<open>
  \<^verbatim>\<open>Counter.most_common(1)\<close> is \<^verbatim>\<open>max\<close> by count over the items: the first item of the
  highest count. On an empty counter the list is empty.
\<close>

fun most_common1 :: "('k \<times> nat) list \<Rightarrow> ('k \<times> nat) option" where
  "most_common1 [] = None"
| "most_common1 (x # xs) = Some (fold (\<lambda>y best. if snd best < snd y then y else best) xs x)"

text \<open>The chain of comparisons of lines 151 to 158 and, on the other table, 170 to 177.\<close>

definition band :: "thresholds \<Rightarrow> rat \<Rightarrow> severity option" where
  "band t x =
     (if x > critical t then Some Critical
      else if x > high t then Some High
      else if x > medium t then Some Medium
      else None)"

definition stat_of :: "pykey \<times> endpoint_data \<Rightarrow> endpoint_stat" where
  "stat_of p =
     (case p of (ep, d) \<Rightarrow>
        \<lparr>endpoint = ep,
         request_count = count d,
         ep_avg_response_time_ms = ep_sum_response d / of_nat (count d),
         slowest_request_ms = max_response d,
         fastest_request_ms = min_response d,
         error_count = errors d,
         most_common_status = map_option fst (most_common1 (status_counter d))\<rparr>)"

definition issues_of :: "pykey \<times> endpoint_data \<Rightarrow> issue list" where
  "issues_of p =
     (case p of (ep, d) \<Rightarrow>
        (let avg_rt = ep_sum_response d / of_nat (count d);
             err_rate = (of_nat (errors d) / of_nat (count d)) * 100
         in (case band RESPONSE_THRESHOLDS avg_rt of
               None \<Rightarrow> []
             | Some sev \<Rightarrow> [Slow_endpoint ep avg_rt (medium RESPONSE_THRESHOLDS) sev])
          @ (case band ERROR_RATE_THRESHOLDS err_rate of
               None \<Rightarrow> []
             | Some sev \<Rightarrow> [High_error_rate ep err_rate sev])))"

text \<open>Lines 189 to 193, over the statistics in the order they were built.\<close>

definition recommendations_of :: "endpoint_stat list \<Rightarrow> recommendation list" where
  "recommendations_of stats =
     map (\<lambda>s. Consider_caching (endpoint s) (request_count s))
       (filter (\<lambda>s. request_count s > 100 \<and> ep_avg_response_time_ms s < 500) stats)"

subsection \<open>Sliding windows\<close>

text \<open>
  The inner loop \<^verbatim>\<open>while secs[right] - secs[left] > 300: left += 1\<close>. In the source
  \<open>left \<le> right\<close> always holds and the loop ends at \<open>left = right\<close> at the latest, where
  the difference is 0; the guard \<open>left < right\<close> makes that explicit.
\<close>

function advance_left :: "int list \<Rightarrow> nat \<Rightarrow> nat \<Rightarrow> nat" where
  "advance_left secs right left =
     (if left < right \<and> secs ! right - secs ! left > 300
      then advance_left secs right (Suc left) else left)"
  by pat_completeness auto
termination
  by (relation "measure (\<lambda>(secs, right, left). right - left)") auto

declare advance_left.simps [simp del]

text \<open>
  The loop \<^verbatim>\<open>for right in range(len(secs))\<close> of lines 207 to 211, from position
  \<open>right\<close> on, with the current \<open>left\<close>: the window counts it appends.
\<close>

function window_scan :: "int list \<Rightarrow> nat \<Rightarrow> nat \<Rightarrow> nat list" where
  "window_scan secs right left =
     (if right < length secs then
        (let l = advance_left secs right left
         in (right - l + 1) # window_scan secs (Suc right) l)
      else [])"
  by pat_completeness auto
termination
  by (relation "measure (\<lambda>(secs, right, left). length secs - right)") auto

declare window_scan.simps [simp del]

definition window_counts :: "int list \<Rightarrow> nat list" where
  "window_counts secs = window_scan secs 0 0"

text \<open>\<^verbatim>\<open>xs.index(x)\<close> (ValueError when absent) and \<^verbatim>\<open>xs[i]\<close> (IndexError out of range).\<close>

fun index_of :: "'a \<Rightarrow> 'a list \<Rightarrow> nat option" where
  "index_of x [] = None"
| "index_of x (y # ys) = (if x = y then Some 0 else map_option Suc (index_of x ys))"

definition py_index :: "'a list \<Rightarrow> 'a \<Rightarrow> py_error + nat" where
  "py_index xs x = (case index_of x xs of None \<Rightarrow> Inl ValueError | Some i \<Rightarrow> Inr i)"

definition py_nth :: "'a list \<Rightarrow> nat \<Rightarrow> py_error + 'a" where
  "py_nth xs i = (if i < length xs then Inr (xs ! i) else Inl IndexError)"

text \<open>\<^verbatim>\<open>times_sorted[secs.index(secs[window_counts.index(peak)])]\<close> of line 218.\<close>

definition peak_timestamp :: "datetime list \<Rightarrow> int list \<Rightarrow> nat list \<Rightarrow> nat \<Rightarrow> py_error + datetime" where
  "peak_timestamp times_sorted secs wcs peak =
     bind_err (py_index wcs peak) (\<lambda>i.
     bind_err (py_nth secs i) (\<lambda>s.
     bind_err (py_index secs s) (\<lambda>j.
       py_nth times_sorted j)))"

text \<open>
  Lines 199 to 222 for one endpoint. \<^verbatim>\<open>sorted\<close> is stable and orders datetimes by
  their instant (all of one list are naive or all aware, or the loop above has raised).
\<close>

definition request_spike :: "pykey \<times> datetime list \<Rightarrow> py_error + anomaly list" where
  "request_spike p =
     (case p of (ep, tms) \<Rightarrow>
        if tms = [] then Inr []
        else
          (let times_sorted = sort_key epoch_micros tms;
               secs = map timestamp_int times_sorted;
               wcs = window_counts secs;
               avg_rate = (of_nat (sum_list wcs) / of_nat (max 1 (length wcs)) :: rat)
           in case wcs of
                [] \<Rightarrow> Inl ValueError
              | w # ws \<Rightarrow>
                  (let peak = fold max ws w
                   in if avg_rate > 0 \<and> of_nat peak > 3 * avg_rate \<and> peak \<ge> 10 then
                        bind_err (peak_timestamp times_sorted secs wcs peak) (\<lambda>t.
                          Inr [Request_spike ep t avg_rate peak
                                 (if peak > 50 then High else Medium)])
                      else Inr [])))"

text \<open>Lines 226 to 237 for one endpoint; \<^verbatim>\<open>-inf\<close> exceeds nothing.\<close>

definition response_degradation :: "pykey \<times> endpoint_data \<Rightarrow> anomaly list" where
  "response_degradation p =
     (case p of (ep, d) \<Rightarrow>
        (let avg_rt = ep_sum_response d / of_nat (count d)
         in case max_response d of
              None \<Rightarrow> []
            | Some mx \<Rightarrow>
                if mx > 2 * avg_rt \<and> mx > medium RESPONSE_THRESHOLDS
                then [Response_degradation ep avg_rt mx High] else []))"

text \<open>
  The loop of lines 245 to 256 from position \<open>right\<close> on: the bounds of the window at
  the \<^verbatim>\<open>break\<close>, or \<open>None\<close> when the loop runs to its end.
\<close>

function cluster_scan :: "int list \<Rightarrow> nat \<Rightarrow> nat \<Rightarrow> (nat \<times> nat) option" where
  "cluster_scan secs right left =
     (if right < length secs then
        (let l = advance_left secs right left
         in if right - l + 1 \<ge> 10 then Some (l, right)
            else cluster_scan secs (Suc right) l)
      else None)"
  by pat_completeness auto
termination
  by (relation "measure (\<lambda>(secs, right, left). length secs - right)") auto

declare cluster_scan.simps [simp del]

definition error_cluster :: "pykey \<times> datetime list \<Rightarrow> anomaly list" where
  "error_cluster p =
     (case p of (ep, err_times) \<Rightarrow>
        if err_times = [] then []
        else
          (let secs = sort (map timestamp_int err_times)
           in case cluster_scan secs 0 0 of
                None \<Rightarrow> []
              | Some (left, right) \<Rightarrow>
                  [Error_cluster ep (secs ! left) (secs ! right) (right - left + 1)
                     (if right - left + 1 > 50 then Critical else High)]))"

text \<open>
  Lines 259 to 266. \<^verbatim>\<open>most_common(1)[0]\<close> raises IndexError on an empty counter; the
  sum of a counter with an entry is positive.
\<close>

definition unusual_user :: "(pykey \<times> nat) list \<Rightarrow> py_error + anomaly list" where
  "unusual_user uc =
     (case most_common1 uc of
        None \<Rightarrow> Inl IndexError
      | Some (top_user, top_count) \<Rightarrow>
          Inr (if (of_nat top_count / of_nat (sum_list (map snd uc)) :: rat) > 1 / 2
               then [Unusual_user_behavior top_user top_count High] else []))"

text \<open>A loop over the items of a dictionary that appends what each item yields.\<close>

fun collect :: "('a \<Rightarrow> py_error + 'b list) \<Rightarrow> 'a list \<Rightarrow> py_error + 'b list" where
  "collect f [] = Inr []"
| "collect f (x # xs) = bind_err (f x) (\<lambda>ys. bind_err (collect f xs) (\<lambda>zs. Inr (ys @ zs)))"

subsection \<open>Caching opportunities\<close>

text \<open>
  \<^verbatim>\<open>round(x, 4)\<close> rounds half to even; \<^verbatim>\<open>int(x)\<close> truncates, which on the
  non-negative values here is the floor.
\<close>

definition round_half_even :: "rat \<Rightarrow> int" where
  "round_half_even x =
     (let f = \<lfloor>x\<rfloor>; r = x - of_int f
      in if r < 1 / 2 then f else if r > 1 / 2 then f + 1 else if even f then f else f + 1)"

definition round4 :: "rat \<Rightarrow> rat" where
  "round4 x = of_int (round_half_even (x * 10000)) / 10000"

definition counter_get :: "('k \<times> nat) list \<Rightarrow> 'k \<Rightarrow> nat" where
  "counter_get c k = (case map_of c k of None \<Rightarrow> 0 | Some n \<Rightarrow> n)"

text \<open>\<^verbatim>\<open>max_response - min_response < 500\<close>, where a difference with an infinity is \<^verbatim>\<open>-inf\<close>.\<close>

definition consistent :: "endpoint_data \<Rightarrow> bool" where
  "consistent d =
     (case (max_response d, min_response d) of
        (Some mx, Some mn) \<Rightarrow> mx - mn < 500
      | _ \<Rightarrow> True)"

text \<open>Lines 273 to 289 for one endpoint. The two running totals of lines 290 and 291 are not reported.\<close>

definition caching_of :: "pykey \<times> endpoint_data \<Rightarrow> caching_opportunity list" where
  "caching_of p =
     (case p of (ep, d) \<Rightarrow>
        if count d < 1 then []
        else
          (let get_ratio = (of_nat (counter_get (methods d) (KStr ''GET'')) / of_nat (count d) :: rat);
               err_rate = (of_nat (errors d) / of_nat (count d) :: rat) * 100
           in if count d > 100 \<and> get_ratio > 8 / 10 \<and> err_rate < 2 \<and> consistent d then
                (let potential_hit = \<lfloor>(of_nat (count d) :: rat) * (8 / 10)\<rfloor>;
                     est_savings = (of_int potential_hit :: rat) * (1 / 10000)
                 in [\<lparr>co_endpoint = ep,
                       potential_cache_hit_rate = \<lfloor>get_ratio * 100\<rfloor>,
                       current_requests = count d,
                       potential_requests_saved = potential_hit,
                       estimated_cost_savings_usd = round4 est_savings,
                       recommended_ttl_minutes = 15,
                       recommendation_confidence = ''high''\<rparr>])
              else []))"

subsection \<open>Assembling the report\<close>

text \<open>Lines 307 to 311: the keys in sorted order, relabelled by \<^verbatim>\<open>k[11:16]\<close> and summed.\<close>

definition hourly_formatted :: "(string \<times> nat) list \<Rightarrow> (string \<times> nat) list" where
  "hourly_formatted h =
     fold (\<lambda>kv hf. upd_default (take 5 (drop 11 (fst kv))) 0 (\<lambda>n. n + snd kv) hf)
       (sort_key fst h) []"

text \<open>\<^verbatim>\<open>most_common(5)\<close>: the first five of the items sorted by descending count, stably.\<close>

definition top_users :: "(pykey \<times> nat) list \<Rightarrow> (pykey \<times> nat) list" where
  "top_users uc = take 5 (sort_key (\<lambda>kv. - int (snd kv)) uc)"

definition sum_counts :: "(pykey \<times> endpoint_data) list \<Rightarrow> nat" where
  "sum_counts info = sum_list (map (\<lambda>kv. count (snd kv)) info)"

text \<open>Lines 110 to 323: from the accumulators to the report.\<close>

definition build_report :: "acc \<Rightarrow> py_error + report" where
  "build_report a =
     (let valid_requests = sum_counts (endpoint_info a)
      in if valid_requests = 0 then Inr empty_report
         else
           (let avg_response = sum_response a / of_nat valid_requests;
                total_errors = sum_list (map (\<lambda>kv. errors (snd kv)) (endpoint_info a));
                error_rate_pct = ((of_nat total_errors / of_nat valid_requests) * 100 :: rat);
                stats = map stat_of (endpoint_info a);
                issues = concat (map issues_of (endpoint_info a))
            in bind_err (collect request_spike (per_endpoint_timestamps a)) (\<lambda>spikes.
               bind_err (unusual_user (user_counts a)) (\<lambda>unusual.
                 Inr \<lparr>summary =
                        \<lparr>total_requests = valid_requests,
                         time_range_start = earliest a,
                         time_range_end = latest a,
                         avg_response_time_ms = Some avg_response,
                         error_rate_percentage = Some error_rate_pct\<rparr>,
                      endpoint_stats = sort_key (\<lambda>s. - int (request_count s)) stats,
                      performance_issues = issues,
                      recommendations = recommendations_of stats,
                      hourly_distribution = hourly_formatted (hourly a),
                      top_users_by_requests = top_users (user_counts a),
                      anomalies =
                        spikes
                        @ concat (map response_degradation (endpoint_info a))
                        @ concat (map error_cluster (per_endpoint_errors a))
                        @ unusual,
                      caching_opportunities = concat (map caching_of (endpoint_info a))\<rparr>))))"

text \<open>
  \<^verbatim>\<open>analyze_api_logs(logs)\<close>; \<open>None\<close> is Python's \<^verbatim>\<open>None\<close>. \<open>Inl\<close> is the exception
  that leaves the function.
\<close>

definition analyze_api_logs ::
  "(string \<Rightarrow> datetime option) \<Rightarrow> entry list option \<Rightarrow> py_error + report" where
  "analyze_api_logs fromiso logs =
     (case logs of
        None \<Rightarrow> Inl ValueError
      | Some ls \<Rightarrow> bind_err (run_loop fromiso init_acc ls) build_report)"

section \<open>Notions of the specification\<close>

text \<open>The value of a field of a record, \<^verbatim>\<open>None\<close> when the record has no such key.\<close>

definition entry_field :: "(string \<rightharpoonup> pyval) \<Rightarrow> string \<Rightarrow> pyval" where
  "entry_field d k = (case d k of None \<Rightarrow> PNone | Some v \<Rightarrow> v)"

text \<open>
  The criteria of the specification for a raw record, stated on the field values. A
  timestamp is parseable when it is a non-empty string that the library reads as an ISO
  8601 instant, a final \<^verbatim>\<open>Z\<close> standing for \<^verbatim>\<open>+00:00\<close>. A value is numeric when it is an
  integer or a float, and an integer when it is an integer; in Python a boolean is an
  integer, 0 or 1. A field that is absent has the value \<^verbatim>\<open>None\<close>, which is neither.
\<close>

fun parseable :: "(string \<Rightarrow> datetime option) \<Rightarrow> pyval \<Rightarrow> bool" where
  "parseable fromiso (PStr s) = (s \<noteq> [] \<and> fromiso (replace_Z s) \<noteq> None)"
| "parseable fromiso v = False"

fun numeric_value :: "pyval \<Rightarrow> rat option" where
  "numeric_value (PInt n) = Some (of_int n)"
| "numeric_value (PFloat q) = Some q"
| "numeric_value (PBool b) = Some (of_bool b)"
| "numeric_value v = None"

fun is_integer :: "pyval \<Rightarrow> bool" where
  "is_integer (PInt n) = True"
| "is_integer (PBool b) = True"
| "is_integer v = False"

definition passes_validation :: "(string \<Rightarrow> datetime option) \<Rightarrow> entry \<Rightarrow> bool" where
  "passes_validation fromiso entry =
     (case entry of
        NotADict \<Rightarrow> False
      | Dict d \<Rightarrow>
          parseable fromiso (entry_field d ''timestamp'')
          \<and> (case numeric_value (entry_field d ''response_time_ms'') of
                 None \<Rightarrow> False
               | Some r \<Rightarrow> 0 \<le> r)
          \<and> is_integer (entry_field d ''status_code''))"

text \<open>The valid records of a list, as the events the loop accumulates, and the loop on events.\<close>

definition events :: "(string \<Rightarrow> datetime option) \<Rightarrow> entry list \<Rightarrow> event list" where
  "events fromiso logs = List.map_filter (validate fromiso) logs"

fun run_events :: "acc \<Rightarrow> event list \<Rightarrow> py_error + acc" where
  "run_events a [] = Inr a"
| "run_events a (ev # evs) = bind_err (accumulate a ev) (\<lambda>a'. run_events a' evs)"

text \<open>Records of the test suite: a well-formed one, one with month 13, one with a negative time.\<close>

definition single_entry :: entry where
  "single_entry =
     Dict [''timestamp'' \<mapsto> PStr ''2025-01-15T10:00:00Z'',
           ''endpoint'' \<mapsto> PStr ''/api/users'',
           ''method'' \<mapsto> PStr ''GET'',
           ''response_time_ms'' \<mapsto> PInt 120,
           ''status_code'' \<mapsto> PInt 200,
           ''user_id'' \<mapsto> PStr ''user_001'',
           ''request_size_bytes'' \<mapsto> PInt 256,
           ''response_size_bytes'' \<mapsto> PInt 1024]"




text \<open>
  A record whose timestamp carries no offset (a naive datetime), and one whose timestamp
  carries the offset +05:00.
\<close>

definition naive_entry :: entry where
  "naive_entry =
     Dict [''timestamp'' \<mapsto> PStr ''2025-01-15T10:05:00'',
           ''endpoint'' \<mapsto> PStr ''/api/users'',
           ''method'' \<mapsto> PStr ''GET'',
           ''response_time_ms'' \<mapsto> PInt 100,
           ''status_code'' \<mapsto> PInt 200,
           ''user_id'' \<mapsto> PStr ''user_002'']"

definition offset_entry :: entry where
  "offset_entry =
     Dict [''timestamp'' \<mapsto> PStr ''2025-01-15T10:30:00+05:00'',
           ''endpoint'' \<mapsto> PStr ''/api/users'',
           ''method'' \<mapsto> PStr ''GET'',
           ''response_time_ms'' \<mapsto> PInt 100,
           ''status_code'' \<mapsto> PInt 200,
           ''user_id'' \<mapsto> PStr ''user_001'']"

text \<open>The hour of the day of an instant in UTC, as an \<^verbatim>\<open>HH:MM\<close> label.\<close>

definition utc_hour_label :: "datetime \<Rightarrow> string" where
  "utc_hour_label t = pad2 ((timestamp_int t div 3600) mod 24) @ '':00''"

text \<open>
  The bands of the specification: the highest of \<open>critical\<close>, \<open>high\<close>, \<open>medium\<close> whose
  cutoff the value exceeds, none when it exceeds no cutoff.
\<close>

fun cutoff :: "thresholds \<Rightarrow> severity \<Rightarrow> rat" where
  "cutoff t Medium = medium t"
| "cutoff t High = high t"
| "cutoff t Critical = critical t"

definition highest_band :: "thresholds \<Rightarrow> rat \<Rightarrow> severity option" where
  "highest_band t x =
     (case filter (\<lambda>s. x > cutoff t s) [Critical, High, Medium] of
        [] \<Rightarrow> None
      | s # rest \<Rightarrow> Some s)"

text \<open>
  Endpoint aggregates: 125 requests of which 107 are GET, and 150 requests of which 143
  are GET; no errors, response times between 100 and 200 ms.
\<close>

definition aggregate_125 :: endpoint_data where
  "aggregate_125 =
     \<lparr>count = 125, ep_sum_response = 18750, min_response = Some 100, max_response = Some 200,
      errors = 0, status_counter = [(200, 125)],
      methods = [(KStr ''GET'', 107), (KStr ''POST'', 18)]\<rparr>"

definition aggregate_150 :: endpoint_data where
  "aggregate_150 =
     \<lparr>count = 150, ep_sum_response = 22500, min_response = Some 100, max_response = Some 200,
      errors = 0, status_counter = [(200, 150)],
      methods = [(KStr ''GET'', 143), (KStr ''POST'', 7)]\<rparr>"

text \<open>An aggregate of two requests that is both slow and failing.\<close>

definition aggregate_slow_failing :: endpoint_data where
  "aggregate_slow_failing =
     \<lparr>count = 2, ep_sum_response = 6000, min_response = Some 2500, max_response = Some 3500,
      errors = 2, status_counter = [(500, 2)], methods = [(KStr ''POST'', 2)]\<rparr>"

text \<open>
  The number of positions up to \<open>r\<close> whose epoch second is at most 300 seconds before
  that of position \<open>r\<close>: the window the specification describes, on the sequence of
  epoch seconds.
\<close>

definition trailing_count :: "int list \<Rightarrow> nat \<Rightarrow> nat" where
  "trailing_count secs r = length (filter (\<lambda>j. secs ! r - secs ! j \<le> 300) [0..<Suc r])"

text \<open>Kinds of anomaly.\<close>

fun is_error_cluster :: "anomaly \<Rightarrow> bool" where
  "is_error_cluster (Error_cluster ep a b n sev) = True"
| "is_error_cluster x = False"

fun is_unusual_user :: "anomaly \<Rightarrow> bool" where
  "is_unusual_user (Unusual_user_behavior u c sev) = True"
| "is_unusual_user x = False"

fun is_request_spike :: "anomaly \<Rightarrow> bool" where
  "is_request_spike (Request_spike ep t avg p sev) = True"
| "is_request_spike x = False"

text \<open>A UTC time of day on 2025-01-15: hour, minute, second, microsecond.\<close>

definition utc_time :: "int \<Rightarrow> int \<Rightarrow> int \<Rightarrow> int \<Rightarrow> datetime" where
  "utc_time h m s us =
     \<lparr>year = 2025, month = 1, day = 15, hour = h, minute = m, second = s,
      microsecond = us, utcoffset = Some 0\<rparr>"

text \<open>
  Ten error timestamps of one endpoint; the first is at 10:00:00.1 and the last at
  10:05:00.9, which is 300.8 seconds later.
\<close>

definition ten_errors :: "datetime list" where
  "ten_errors =
     [utc_time 10 0 0 100000, utc_time 10 0 30 0, utc_time 10 1 0 0, utc_time 10 1 30 0,
      utc_time 10 2 0 0, utc_time 10 2 30 0, utc_time 10 3 0 0, utc_time 10 3 30 0,
      utc_time 10 4 0 0, utc_time 10 5 0 900000]"

text \<open>
  The specification's condition on the error timestamps themselves: some span of 300
  seconds holds at least ten of them, that is, some timestamp and the ninth after it (in
  ascending order) are at most 300 seconds apart.
\<close>

definition span_of_ten :: "datetime list \<Rightarrow> bool" where
  "span_of_ten errs =
     (let us = sort (map epoch_micros errs)
      in list_ex (\<lambda>i. us ! (i + 9) - us ! i \<le> 300 * 1000000) [0..<length us - 9])"

text \<open>Ten error records of one endpoint within five minutes.\<close>

definition error_entry :: "string \<Rightarrow> entry" where
  "error_entry ts =
     Dict [''timestamp'' \<mapsto> PStr ts,
           ''endpoint'' \<mapsto> PStr ''/api/pay'',
           ''method'' \<mapsto> PStr ''POST'',
           ''response_time_ms'' \<mapsto> PInt 100,
           ''status_code'' \<mapsto> PInt 500]"

definition cluster_logs :: "entry list" where
  "cluster_logs =
     map error_entry
       [''2025-01-15T10:00:00Z'', ''2025-01-15T10:00:30Z'', ''2025-01-15T10:01:00Z'',
        ''2025-01-15T10:01:30Z'', ''2025-01-15T10:02:00Z'', ''2025-01-15T10:02:30Z'',
        ''2025-01-15T10:03:00Z'', ''2025-01-15T10:03:30Z'', ''2025-01-15T10:04:00Z'',
        ''2025-01-15T10:05:00Z'', ''2025-01-15T10:05:10Z'']"




section \<open>Basic facts\<close>

lemma bind_err_Inl [simp]: "bind_err (Inl e) f = Inl e"
  by (simp add: bind_err_def)

lemma bind_err_Inr [simp]: "bind_err (Inr v) f = f v"
  by (simp add: bind_err_def)

lemma bind_err_eq_Inr: "bind_err x f = Inr y \<longleftrightarrow> (\<exists>v. x = Inr v \<and> f v = Inr y)"
  by (cases x) simp_all

lemma get_Dict: "get (Dict d) k = Inr (entry_field d k)"
  by (simp add: entry_field_def split: option.splits)

lemma read_entry_NotADict: "read_entry fromiso NotADict = Inl AttributeError"
  by (simp add: read_entry_def)

lemma read_entry_Dict:
  "read_entry fromiso (Dict d) =
     (case parse_timestamp fromiso (entry_field d ''timestamp'') of
        Inl e \<Rightarrow> Inl e
      | Inr ts \<Rightarrow>
          (case number_of (entry_field d ''response_time_ms'') of
             None \<Rightarrow> Inr None
           | Some r \<Rightarrow>
               if r < 0 then Inr None
               else (case integer_of (entry_field d ''status_code'') of
                       None \<Rightarrow> Inr None
                     | Some st \<Rightarrow>
                         Inr (Some \<lparr>ev_ts = ts,
                                    ev_endpoint = py_or (entry_field d ''endpoint'') (PStr ''/''),
                                    ev_method = py_or (entry_field d ''method'') (PStr ''GET''),
                                    ev_rt = r,
                                    ev_status = st,
                                    ev_user = py_or (entry_field d ''user_id'') (PStr ''anonymous'')\<rparr>))))"
  unfolding read_entry_def get_Dict bind_err_Inr
  by (cases "parse_timestamp fromiso (entry_field d ''timestamp'')") simp_all

lemma parse_timestamp_parseable:
  "(case parse_timestamp fromiso v of Inl e \<Rightarrow> False | Inr t \<Rightarrow> True) = parseable fromiso v"
  by (cases v) (auto simp: parse_timestamp_def split: option.splits)

lemma number_of_numeric: "number_of v = numeric_value v"
  by (cases v) simp_all

lemma integer_of_is_integer: "(case integer_of v of None \<Rightarrow> False | Some s \<Rightarrow> True) = is_integer v"
  by (cases v) simp_all

lemma validate_iff: "validate fromiso entry \<noteq> None \<longleftrightarrow> passes_validation fromiso entry"
proof (cases entry)
  case NotADict
  then show ?thesis
    by (simp add: validate_def read_entry_NotADict passes_validation_def)
next
  case (Dict d)
  show ?thesis
    unfolding Dict validate_def read_entry_Dict passes_validation_def entry.case
      parse_timestamp_parseable [symmetric] integer_of_is_integer [symmetric]
      number_of_numeric [symmetric]
    by (simp split: sum.split option.split)
qed


lemma events_Nil [simp]: "events fromiso [] = []"
  by (simp add: events_def map_filter_simps)

lemma events_Cons:
  "events fromiso (entry # logs) = (case validate fromiso entry of None \<Rightarrow> events fromiso logs | Some ev \<Rightarrow> ev # events fromiso logs)"
  by (simp add: events_def map_filter_simps split: option.splits)


lemma filter_events_Cons:
  "filter (passes_validation fromiso) (entry # logs) =
     (case validate fromiso entry of None \<Rightarrow> filter (passes_validation fromiso) logs
      | Some ev \<Rightarrow> entry # filter (passes_validation fromiso) logs)"
proof (cases "validate fromiso entry")
  case None
  then have "\<not> passes_validation fromiso entry" using validate_iff by blast
  with None show ?thesis by simp
next
  case (Some ev)
  then have "passes_validation fromiso entry" using validate_iff [of fromiso entry] by simp
  with Some show ?thesis by simp
qed

lemma length_events: "length (events fromiso logs) = length (filter (passes_validation fromiso) logs)"
proof (induction logs)
  case Nil
  show ?case by simp
next
  case (Cons entry logs)
  show ?case
    unfolding events_Cons filter_events_Cons using Cons.IH
    by (cases "validate fromiso entry") simp_all
qed


lemma accumulate_total:
  "accumulate (a\<lparr>total := n\<rparr>) ev =
     (case accumulate a ev of Inl e \<Rightarrow> Inl e | Inr b \<Rightarrow> Inr (b\<lparr>total := n\<rparr>))"
  by (auto simp: accumulate_def bind_err_def split: sum.splits)

lemma run_events_total:
  "run_events (a\<lparr>total := n\<rparr>) evs =
     (case run_events a evs of Inl e \<Rightarrow> Inl e | Inr b \<Rightarrow> Inr (b\<lparr>total := n\<rparr>))"
proof (induction evs arbitrary: a)
  case Nil
  show ?case by simp
next
  case (Cons ev evs)
  show ?case
    by (cases "accumulate a ev") (simp_all add: accumulate_total Cons.IH)
qed

lemma run_loop_events:
  "run_loop fromiso a logs =
     (case run_events a (events fromiso logs) of
        Inl e \<Rightarrow> Inl e
      | Inr b \<Rightarrow> Inr (b\<lparr>total := total a + length logs\<rparr>))"
proof (induction logs arbitrary: a)
  case Nil
  show ?case by simp
next
  case (Cons entry logs)
  show ?case
  proof (cases "validate fromiso entry")
    case None
    then show ?thesis
      by (simp add: step_def events_Cons Cons.IH run_events_total split: sum.split)
  next
    case (Some ev)
    then show ?thesis
      by (cases "accumulate a ev")
         (simp_all add: step_def events_Cons Cons.IH accumulate_total run_events_total
            split: sum.split)
  qed
qed

lemma build_report_total: "build_report (a\<lparr>total := n\<rparr>) = build_report a"
  by (simp add: build_report_def Let_def)

lemma analyze_events:
  "analyze_api_logs fromiso (Some logs) = bind_err (run_events init_acc (events fromiso logs)) build_report"
  by (simp add: analyze_api_logs_def run_loop_events build_report_total bind_err_def split: sum.splits)

section \<open>The count of valid records\<close>





lemma build_report_Inr:
  assumes "build_report a = Inr r"
  shows "(sum_counts (endpoint_info a) = 0 \<and> r = empty_report) \<or>
         (sum_counts (endpoint_info a) \<noteq> 0 \<and>
          (\<exists>spikes unusual.
             collect request_spike (per_endpoint_timestamps a) = Inr spikes \<and>
             unusual_user (user_counts a) = Inr unusual \<and>
             summary r =
               \<lparr>total_requests = sum_counts (endpoint_info a),
                time_range_start = earliest a,
                time_range_end = latest a,
                avg_response_time_ms = Some (sum_response a / of_nat (sum_counts (endpoint_info a))),
                error_rate_percentage =
                  Some ((of_nat (sum_list (map (\<lambda>kv. errors (snd kv)) (endpoint_info a)))
                          / of_nat (sum_counts (endpoint_info a))) * 100)\<rparr> \<and>
             endpoint_stats r = sort_key (\<lambda>s. - int (request_count s)) (map stat_of (endpoint_info a)) \<and>
             performance_issues r = concat (map issues_of (endpoint_info a)) \<and>
             recommendations r = recommendations_of (map stat_of (endpoint_info a)) \<and>
             hourly_distribution r = hourly_formatted (hourly a) \<and>
             top_users_by_requests r = top_users (user_counts a) \<and>
             anomalies r =
               spikes @ concat (map response_degradation (endpoint_info a))
                 @ concat (map error_cluster (per_endpoint_errors a)) @ unusual \<and>
             caching_opportunities r = concat (map caching_of (endpoint_info a))))"
proof (cases "sum_counts (endpoint_info a) = 0")
  case True
  with assms show ?thesis by (simp add: build_report_def)
next
  case False
  with assms show ?thesis
    by (auto simp: build_report_def Let_def bind_err_eq_Inr)
qed








subsection \<open>Failures of the whole analysis\<close>

lemma analyze_None: "analyze_api_logs fromiso None = Inl ValueError"
  by (simp add: analyze_api_logs_def)

lemma analyze_no_valid:
  assumes "filter (passes_validation fromiso) logs = []"
  shows "analyze_api_logs fromiso (Some logs) = Inr empty_report"
proof -
  from assms have "length (events fromiso logs) = 0"
    by (simp add: length_events)
  then have "events fromiso logs = []" by simp
  then show ?thesis
    by (simp add: analyze_events build_report_def init_acc_def sum_counts_def)
qed

lemma analyze_empty: "analyze_api_logs fromiso (Some []) = Inr empty_report"
  by (rule analyze_no_valid) simp

text \<open>
  Claim C2, at the input on which the code departs from it. Two records that each pass
  validation, one with a \<^verbatim>\<open>Z\<close> timestamp and one whose timestamp has no offset: the
  comparison of line 85, which is outside the \<^verbatim>\<open>try\<close> block, raises \<^verbatim>\<open>TypeError\<close>, and
  the exception leaves \<^verbatim>\<open>analyze_api_logs\<close>.
\<close>

theorem mixed_naive_and_aware_timestamps_raise:
  "passes_validation fromisoformat single_entry \<and> passes_validation fromisoformat naive_entry
   \<and> analyze_api_logs fromisoformat (Some [single_entry, naive_entry]) = Inl TypeError"
  by code_simp

subsection \<open>Hour buckets\<close>

lemma hour_label_of_key: "take 5 (drop 11 (hour_key t)) = pad2 (hour t) @ '':00''"
  by (simp add: hour_key_def pad4_def pad2_def)

text \<open>
  Claim C5, at the input on which the code departs from it. A record stamped
  \<^verbatim>\<open>2025-01-15T10:30:00+05:00\<close> is the instant 05:30 UTC; the report counts it under
  \<^verbatim>\<open>10:00\<close>, the hour of its local wall clock.
\<close>

theorem offset_timestamp_bucketed_by_local_hour:
  "map_sum id hourly_distribution (analyze_api_logs fromisoformat (Some [offset_entry])) = Inr [(''10:00'', 1)]
   \<and> map_option (\<lambda>ev. utc_hour_label (ev_ts ev)) (validate fromisoformat offset_entry) = Some ''05:00''"
  by code_simp

subsection \<open>Classification\<close>

lemma highest_band_eq: "highest_band t x = band t x"
  by (simp add: highest_band_def band_def)

lemma issues_of_bands:
  "issues_of (ep, d) =
     (case highest_band RESPONSE_THRESHOLDS (ep_sum_response d / of_nat (count d)) of
        None \<Rightarrow> []
      | Some s \<Rightarrow> [Slow_endpoint ep (ep_sum_response d / of_nat (count d)) 500 s])
     @ (case highest_band ERROR_RATE_THRESHOLDS (100 * of_nat (errors d) / of_nat (count d)) of
          None \<Rightarrow> []
        | Some s \<Rightarrow> [High_error_rate ep (100 * of_nat (errors d) / of_nat (count d)) s])"
proof -
  have m: "medium RESPONSE_THRESHOLDS = 500"
    by (simp add: RESPONSE_THRESHOLDS_def)
  have r: "of_nat (errors d) / of_nat (count d) * 100 = (100 * of_nat (errors d) / of_nat (count d) :: rat)"
    by simp
  show ?thesis
    unfolding issues_of_def highest_band_eq Let_def m r prod.case by (rule refl)
qed

lemma response_band_cutoffs:
  "highest_band RESPONSE_THRESHOLDS x =
     (if x > 2000 then Some Critical else if x > 1000 then Some High
      else if x > 500 then Some Medium else None)"
  by (simp add: highest_band_eq band_def RESPONSE_THRESHOLDS_def)

lemma error_rate_band_cutoffs:
  "highest_band ERROR_RATE_THRESHOLDS x =
     (if x > 15 then Some Critical else if x > 10 then Some High
      else if x > 5 then Some Medium else None)"
  by (simp add: highest_band_eq band_def ERROR_RATE_THRESHOLDS_def)

text \<open>
  Claim C7. For an endpoint aggregate with \<open>count > 0\<close>, the issues are those of the
  average response time \<open>sum / count\<close> followed by those of the error rate
  \<open>100 * errors / count\<close>, each the highest band whose cutoff the value exceeds and none
  when it exceeds no cutoff; the cutoffs are 500, 1000, 2000 ms and 5, 10, 15 percent, all
  compared with strictly-greater-than. Neither part depends on the other, so an endpoint
  can emit both issues (the witness is one that does).
\<close>

theorem classifier_bands:
  assumes "0 < count d"
  shows "issues_of (ep, d) =
           (case highest_band RESPONSE_THRESHOLDS (ep_sum_response d / of_nat (count d)) of
              None \<Rightarrow> []
            | Some s \<Rightarrow> [Slow_endpoint ep (ep_sum_response d / of_nat (count d)) 500 s])
           @ (case highest_band ERROR_RATE_THRESHOLDS (100 * of_nat (errors d) / of_nat (count d)) of
                None \<Rightarrow> []
              | Some s \<Rightarrow> [High_error_rate ep (100 * of_nat (errors d) / of_nat (count d)) s])
         \<and> highest_band RESPONSE_THRESHOLDS x =
             (if x > 2000 then Some Critical else if x > 1000 then Some High
              else if x > 500 then Some Medium else None)
         \<and> highest_band ERROR_RATE_THRESHOLDS y =
             (if y > 15 then Some Critical else if y > 10 then Some High
              else if y > 5 then Some Medium else None)"
  using issues_of_bands response_band_cutoffs error_rate_band_cutoffs by blast

theorem classifier_bands_witness:
  "0 < count aggregate_slow_failing
   \<and> issues_of (KStr ''/api/pay'', aggregate_slow_failing) =
       [Slow_endpoint (KStr ''/api/pay'') 3000 500 Critical,
        High_error_rate (KStr ''/api/pay'') 100 Critical]
   \<and> highest_band RESPONSE_THRESHOLDS 500 = None
   \<and> highest_band ERROR_RATE_THRESHOLDS 5 = None"
proof -
  have c: "0 < count aggregate_slow_failing"
    by (simp add: aggregate_slow_failing_def)
  have a: "ep_sum_response aggregate_slow_failing / of_nat (count aggregate_slow_failing) = 3000"
    by (simp add: aggregate_slow_failing_def)
  have e: "100 * of_nat (errors aggregate_slow_failing) / of_nat (count aggregate_slow_failing) = (100 :: rat)"
    by (simp add: aggregate_slow_failing_def)
  from classifier_bands [OF c, of "KStr ''/api/pay''" 3000 100]
  have i: "issues_of (KStr ''/api/pay'', aggregate_slow_failing) =
       [Slow_endpoint (KStr ''/api/pay'') 3000 500 Critical,
        High_error_rate (KStr ''/api/pay'') 100 Critical]"
    unfolding a e by simp
  from classifier_bands [OF c, of "KStr ''/api/pay''" 500 5] c i
  show ?thesis by simp
qed

subsection \<open>Caching opportunities\<close>

lemma floor_four_fifths: "\<lfloor>(of_nat c :: rat) * (8 / 10)\<rfloor> = int (4 * c div 5)"
proof -
  have "(of_nat c :: rat) * (8 / 10) = of_nat (4 * c) / of_nat 5"
    by simp
  then show ?thesis
    by (simp only: floor_divide_of_nat_eq)
qed

lemma floor_percentage: "\<lfloor>(of_nat g / of_nat c :: rat) * 100\<rfloor> = int (100 * g div c)"
proof -
  have "(of_nat g / of_nat c :: rat) * 100 = of_nat (100 * g) / of_nat c"
    by simp
  then show ?thesis
    by (simp only: floor_divide_of_nat_eq)
qed

lemma round_half_even_of_int: "round_half_even (of_int p) = p"
  by (simp add: round_half_even_def)

lemma round4_ten_thousandths: "round4 (of_int p * (1 / 10000)) = of_int p / 10000"
  by (simp add: round4_def round_half_even_of_int)

text \<open>
  Claim C6, amended. For an endpoint aggregate with finite extremes, there is a caching
  opportunity if and only if \<open>count > 100\<close>, the GET share exceeds 80 percent, the error
  rate is below 2 percent and \<open>max_response - min_response < 500\<close>. The entry then carries
  \<open>potential_requests_saved = floor (count * 0.8)\<close>, the cost saving
  \<open>saved * 0.0001\<close> (which rounding to four decimals leaves as it is), the GET ratio as a
  percentage truncated to an integer, a TTL of 15 minutes and the label \<open>high\<close>. At 150
  requests the saving is 120 (the witness).
\<close>

theorem caching_rule:
  assumes "max_response d = Some mx" and "min_response d = Some mn"
  shows "caching_of (ep, d) =
    (if count d > 100
        \<and> (100 * of_nat (counter_get (methods d) (KStr ''GET'')) / of_nat (count d) :: rat) > 80
        \<and> (100 * of_nat (errors d) / of_nat (count d) :: rat) < 2
        \<and> mx - mn < 500
     then [\<lparr>co_endpoint = ep,
            potential_cache_hit_rate = int (100 * counter_get (methods d) (KStr ''GET'') div count d),
            current_requests = count d,
            potential_requests_saved = int (4 * count d div 5),
            estimated_cost_savings_usd = of_nat (4 * count d div 5) / 10000,
            recommended_ttl_minutes = 15,
            recommendation_confidence = ''high''\<rparr>]
     else [])"
proof (cases "count d > 100")
  case False
  then show ?thesis
    by (simp add: caching_of_def Let_def)
next
  case True
  then have pos: "(of_nat (count d) :: rat) > 0" by simp
  have g: "(of_nat (counter_get (methods d) (KStr ''GET'')) / of_nat (count d) :: rat) > 8 / 10
        \<longleftrightarrow> (100 * of_nat (counter_get (methods d) (KStr ''GET'')) / of_nat (count d) :: rat) > 80"
    using pos by (simp add: field_simps)
  have e: "(of_nat (errors d) / of_nat (count d) :: rat) * 100 < 2
        \<longleftrightarrow> (100 * of_nat (errors d) / of_nat (count d) :: rat) < 2"
    by (simp add: mult.commute)
  have c: "consistent d \<longleftrightarrow> mx - mn < 500"
    by (simp add: consistent_def assms)
  have s: "(of_int (int (4 * count d div 5)) :: rat) = of_nat (4 * count d div 5)"
    by simp
  show ?thesis
    unfolding caching_of_def Let_def prod.case g e c floor_four_fifths floor_percentage
      round4_ten_thousandths s
    using True by simp
qed

theorem caching_rule_witness:
  "max_response aggregate_150 = Some 200 \<and> min_response aggregate_150 = Some 100
   \<and> map potential_requests_saved (caching_of (KStr ''/api/items'', aggregate_150)) = [120]
   \<and> map potential_cache_hit_rate (caching_of (KStr ''/api/items'', aggregate_150)) = [95]
   \<and> map estimated_cost_savings_usd (caching_of (KStr ''/api/items'', aggregate_150)) = [12 / 1000]"
proof -
  have mx: "max_response aggregate_150 = Some 200" and mn: "min_response aggregate_150 = Some 100"
    by (simp_all add: aggregate_150_def)
  have v: "count aggregate_150 = 150" "errors aggregate_150 = 0"
    "counter_get (methods aggregate_150) (KStr ''GET'') = 143"
    by (simp_all add: aggregate_150_def counter_get_def)
  show ?thesis
    using caching_rule [OF mx mn, of "KStr ''/api/items''"] mx mn
    by (simp add: v)
qed

text \<open>
  Claim C6 as stated fails where it has the GET ratio rounded: 107 GET requests of 125 are
  85.6 percent, which rounds to 86, and the entry carries 85.
\<close>

theorem cache_hit_rate_is_truncated:
  "map potential_cache_hit_rate (caching_of (KStr ''/api/items'', aggregate_125)) = [85]
   \<and> round (100 * of_nat (counter_get (methods aggregate_125) (KStr ''GET''))
              / of_nat (count aggregate_125) :: rat) = 86"
  by code_simp

subsection \<open>The two-pointer window\<close>

lemma advance_left_props:
  assumes "left \<le> right"
  shows "left \<le> advance_left secs right left
       \<and> advance_left secs right left \<le> right
       \<and> secs ! right - secs ! advance_left secs right left \<le> 300
       \<and> (\<forall>k. left \<le> k \<and> k < advance_left secs right left \<longrightarrow> secs ! right - secs ! k > 300)"
  using assms
proof (induction secs right left rule: advance_left.induct)
  case (1 secs right left)
  show ?case
  proof (cases "left < right \<and> secs ! right - secs ! left > 300")
    case True
    then have eq: "advance_left secs right left = advance_left secs right (Suc left)"
      by (subst advance_left.simps) simp
    from True have "Suc left \<le> right" by simp
    from "1.IH" [OF True this]
    have ih: "Suc left \<le> advance_left secs right (Suc left)"
      "advance_left secs right (Suc left) \<le> right"
      "secs ! right - secs ! advance_left secs right (Suc left) \<le> 300"
      "\<forall>k. Suc left \<le> k \<and> k < advance_left secs right (Suc left) \<longrightarrow> secs ! right - secs ! k > 300"
      by blast+
    have "\<forall>k. left \<le> k \<and> k < advance_left secs right (Suc left) \<longrightarrow> secs ! right - secs ! k > 300"
    proof (intro allI impI)
      fix k assume k: "left \<le> k \<and> k < advance_left secs right (Suc left)"
      show "secs ! right - secs ! k > 300"
      proof (cases "k = left")
        case True
        with \<open>left < right \<and> secs ! right - secs ! left > 300\<close> show ?thesis by simp
      next
        case False
        with k have "Suc left \<le> k" by simp
        with ih(4) k show ?thesis by simp
      qed
    qed
    with ih show ?thesis
      unfolding eq by simp
  next
    case False
    then have eq: "advance_left secs right left = left"
      using advance_left.simps [of secs right left] by auto
    from False "1.prems" have "secs ! right - secs ! left \<le> 300"
      by (cases "left = right") auto
    then show ?thesis
      unfolding eq using "1.prems" by simp
  qed
qed

lemma length_filter_from: "length (filter (\<lambda>j. l \<le> j) [0..<n]) = n - l"
  by (induction n) (auto simp: Suc_diff_le)

lemma trailing_count_window:
  assumes "sorted secs" and "r < length secs" and "l \<le> r"
    and "secs ! r - secs ! l \<le> 300"
    and "\<forall>k<l. secs ! r - secs ! k > 300"
  shows "trailing_count secs r = r - l + 1"
proof -
  have "filter (\<lambda>j. secs ! r - secs ! j \<le> 300) [0..<Suc r] = filter (\<lambda>j. l \<le> j) [0..<Suc r]"
  proof (rule filter_cong [OF refl])
    fix j assume "j \<in> set [0..<Suc r]"
    then have jr: "j \<le> r" by auto
    show "(secs ! r - secs ! j \<le> 300) = (l \<le> j)"
    proof (cases "l \<le> j")
      case True
      with assms(1,2) jr have "secs ! l \<le> secs ! j"
        by (simp add: sorted_nth_mono)
      with assms(4) True show ?thesis by simp
    next
      case False
      with assms(5) show ?thesis by (simp add: not_le)
    qed
  qed
  then show ?thesis
    using assms(3) by (simp add: trailing_count_def length_filter_from Suc_diff_le)
qed

lemma window_scan_trailing:
  assumes "sorted secs" and "left \<le> right"
    and "\<forall>k<left. \<forall>r. right \<le> r \<and> r < length secs \<longrightarrow> secs ! r - secs ! k > 300"
  shows "window_scan secs right left = map (trailing_count secs) [right..<length secs]"
  using assms
proof (induction secs right left rule: window_scan.induct)
  case (1 secs right left)
  show ?case
  proof (cases "right < length secs")
    case False
    then show ?thesis
      by (subst window_scan.simps) simp
  next
    case True
    define l where "l = advance_left secs right left"
    from advance_left_props [OF "1.prems"(2), of secs]
    have l: "left \<le> l" "l \<le> right" "secs ! right - secs ! l \<le> 300"
      "\<forall>k. left \<le> k \<and> k < l \<longrightarrow> secs ! right - secs ! k > 300"
      unfolding l_def by blast+
    have before: "\<forall>k<l. secs ! right - secs ! k > 300"
    proof (intro allI impI)
      fix k assume "k < l"
      show "secs ! right - secs ! k > 300"
      proof (cases "k < left")
        case True
        with "1.prems"(3) \<open>right < length secs\<close> show ?thesis by simp
      next
        case False
        with l(4) \<open>k < l\<close> show ?thesis by simp
      qed
    qed
    have here: "trailing_count secs right = right - l + 1"
      by (rule trailing_count_window [OF "1.prems"(1) True l(2) l(3) before])
    have inv: "\<forall>k<l. \<forall>r. Suc right \<le> r \<and> r < length secs \<longrightarrow> secs ! r - secs ! k > 300"
    proof (intro allI impI)
      fix k r assume "k < l" and r: "Suc right \<le> r \<and> r < length secs"
      then have "secs ! right \<le> secs ! r"
        using "1.prems"(1) by (simp add: sorted_nth_mono)
      with before \<open>k < l\<close> show "secs ! r - secs ! k > 300" by fastforce
    qed
    have rest: "window_scan secs (Suc right) l = map (trailing_count secs) [Suc right..<length secs]"
      using "1.IH" [OF True l_def "1.prems"(1) _ inv] l(2) by simp
    have "window_scan secs right left = (right - l + 1) # window_scan secs (Suc right) l"
      using True by (subst window_scan.simps) (simp add: l_def Let_def)
    then show ?thesis
      using True by (simp add: rest here upt_conv_Cons)
  qed
qed

lemma window_counts_trailing:
  "sorted secs \<Longrightarrow> window_counts secs = map (trailing_count secs) [0..<length secs]"
  unfolding window_counts_def by (rule window_scan_trailing) simp_all

lemma cluster_scan_first:
  assumes "sorted secs" and "left \<le> right"
    and "\<forall>k<left. \<forall>r. right \<le> r \<and> r < length secs \<longrightarrow> secs ! r - secs ! k > 300"
  shows "cluster_scan secs right left =
           (case find (\<lambda>r. 10 \<le> trailing_count secs r) [right..<length secs] of
              None \<Rightarrow> None
            | Some r \<Rightarrow> Some (Suc r - trailing_count secs r, r))"
  using assms
proof (induction secs right left rule: cluster_scan.induct)
  case (1 secs right left)
  show ?case
  proof (cases "right < length secs")
    case False
    then show ?thesis
      by (subst cluster_scan.simps) simp
  next
    case True
    define l where "l = advance_left secs right left"
    from advance_left_props [OF "1.prems"(2), of secs]
    have l: "left \<le> l" "l \<le> right" "secs ! right - secs ! l \<le> 300"
      "\<forall>k. left \<le> k \<and> k < l \<longrightarrow> secs ! right - secs ! k > 300"
      unfolding l_def by blast+
    have before: "\<forall>k<l. secs ! right - secs ! k > 300"
    proof (intro allI impI)
      fix k assume "k < l"
      show "secs ! right - secs ! k > 300"
      proof (cases "k < left")
        case True
        with "1.prems"(3) \<open>right < length secs\<close> show ?thesis by simp
      next
        case False
        with l(4) \<open>k < l\<close> show ?thesis by simp
      qed
    qed
    have here: "trailing_count secs right = right - l + 1"
      by (rule trailing_count_window [OF "1.prems"(1) True l(2) l(3) before])
    have upt: "[right..<length secs] = right # [Suc right..<length secs]"
      using True by (simp add: upt_conv_Cons)
    show ?thesis
    proof (cases "10 \<le> right - l + 1")
      case hit: True
      have "cluster_scan secs right left = Some (l, right)"
        using True hit by (subst cluster_scan.simps) (simp add: l_def Let_def)
      moreover have "Suc right - trailing_count secs right = l"
        using here l(2) by simp
      ultimately show ?thesis
        using hit here by (simp add: upt)
    next
      case miss: False
      have inv: "\<forall>k<l. \<forall>r. Suc right \<le> r \<and> r < length secs \<longrightarrow> secs ! r - secs ! k > 300"
      proof (intro allI impI)
        fix k r assume "k < l" and r: "Suc right \<le> r \<and> r < length secs"
        then have "secs ! right \<le> secs ! r"
          using "1.prems"(1) by (simp add: sorted_nth_mono)
        with before \<open>k < l\<close> show "secs ! r - secs ! k > 300" by fastforce
      qed
      have le: "l \<le> Suc right" using l(2) by simp
      have rest: "cluster_scan secs (Suc right) l =
           (case find (\<lambda>r. 10 \<le> trailing_count secs r) [Suc right..<length secs] of
              None \<Rightarrow> None
            | Some r \<Rightarrow> Some (Suc r - trailing_count secs r, r))"
        using "1.IH" [OF True l_def _ "1.prems"(1) le inv] miss by simp
      have "cluster_scan secs right left = cluster_scan secs (Suc right) l"
        using True miss by (subst cluster_scan.simps) (simp add: l_def Let_def)
      then show ?thesis
        using miss here by (simp add: upt rest)
    qed
  qed
qed

lemma cluster_scan_ten:
  assumes "left \<le> right" and "right \<le> left + 9" and "cluster_scan secs right left = Some (l, r)"
  shows "r - l + 1 = 10 \<and> l \<le> r \<and> r < length secs"
  using assms
proof (induction secs right left rule: cluster_scan.induct)
  case (1 secs right left)
  show ?case
  proof (cases "right < length secs")
    case False
    with "1.prems"(3) show ?thesis
      by (subst (asm) cluster_scan.simps) simp
  next
    case True
    define l' where "l' = advance_left secs right left"
    from advance_left_props [OF "1.prems"(1), of secs]
    have l': "left \<le> l'" "l' \<le> right"
      unfolding l'_def by blast+
    show ?thesis
    proof (cases "10 \<le> right - l' + 1")
      case hit: True
      have "cluster_scan secs right left = Some (l', right)"
        using True hit by (subst cluster_scan.simps) (simp add: l'_def Let_def)
      with "1.prems"(3) have "l = l'" "r = right" by simp_all
      with hit l' "1.prems"(2) True show ?thesis by simp
    next
      case miss: False
      have "cluster_scan secs right left = cluster_scan secs (Suc right) l'"
        using True miss by (subst cluster_scan.simps) (simp add: l'_def Let_def)
      with "1.prems"(3) have c: "cluster_scan secs (Suc right) l' = Some (l, r)" by simp
      have a: "l' \<le> Suc right" using l'(2) by simp
      have b: "Suc right \<le> l' + 9" using miss by simp
      show ?thesis
        using "1.IH" [OF True l'_def _ a b c] miss by simp
    qed
  qed
qed

subsection \<open>Error clusters\<close>

lemma trailing_count_bounds: "1 \<le> trailing_count secs r \<and> trailing_count secs r \<le> Suc r"
proof -
  have "length (filter (\<lambda>j. secs ! r - secs ! j \<le> 300) [0..<Suc r]) \<le> length [0..<Suc r]"
    by (rule length_filter_le)
  moreover have "r \<in> set (filter (\<lambda>j. secs ! r - secs ! j \<le> 300) [0..<Suc r])"
    by simp
  then have "0 < length (filter (\<lambda>j. secs ! r - secs ! j \<le> 300) [0..<Suc r])"
    by (rule length_pos_if_in_set)
  ultimately show ?thesis
    by (simp add: trailing_count_def)
qed

lemma trailing_count_least:
  assumes "sorted secs" and "r < length secs"
  defines "l \<equiv> Suc r - trailing_count secs r"
  shows "l \<le> r \<and> secs ! r - secs ! l \<le> 300 \<and> trailing_count secs r = r - l + 1
         \<and> (\<forall>k<l. secs ! r - secs ! k > 300)"
proof -
  define l0 where "l0 = (LEAST k. secs ! r - secs ! k \<le> 300)"
  have Pr: "secs ! r - secs ! r \<le> 300" by simp
  have 1: "secs ! r - secs ! l0 \<le> 300"
    unfolding l0_def by (rule LeastI [of "\<lambda>k. secs ! r - secs ! k \<le> 300", OF Pr])
  have 2: "l0 \<le> r"
    unfolding l0_def by (rule Least_le [of "\<lambda>k. secs ! r - secs ! k \<le> 300", OF Pr])
  have 3: "\<forall>k<l0. secs ! r - secs ! k > 300"
  proof (intro allI impI)
    fix k assume "k < l0"
    then have "\<not> secs ! r - secs ! k \<le> 300"
      unfolding l0_def by (rule not_less_Least)
    then show "secs ! r - secs ! k > 300" by simp
  qed
  have 4: "trailing_count secs r = r - l0 + 1"
    by (rule trailing_count_window [OF assms(1,2) 2 1 3])
  with 2 have "l = l0" unfolding l_def by simp
  with 1 2 3 4 show ?thesis by simp
qed

lemma trailing_count_span:
  assumes "sorted secs" and "i \<le> j" and "j < length secs" and "secs ! j - secs ! i \<le> 300"
  shows "j - i + 1 \<le> trailing_count secs j"
proof -
  from trailing_count_least [OF assms(1,3)]
  have l: "Suc j - trailing_count secs j \<le> j"
    "trailing_count secs j = j - (Suc j - trailing_count secs j) + 1"
    "\<forall>k<Suc j - trailing_count secs j. secs ! j - secs ! k > 300"
    by blast+
  from l(3) assms(4) have "\<not> i < Suc j - trailing_count secs j"
    by fastforce
  with l(1,2) assms(2) show ?thesis by linarith
qed

lemma span_iff_trailing:
  assumes "sorted secs"
  shows "(\<exists>i j. i \<le> j \<and> j < length secs \<and> secs ! j - secs ! i \<le> 300 \<and> 10 \<le> j - i + 1)
         \<longleftrightarrow> (\<exists>r<length secs. 10 \<le> trailing_count secs r)"
proof
  assume "\<exists>i j. i \<le> j \<and> j < length secs \<and> secs ! j - secs ! i \<le> 300 \<and> 10 \<le> j - i + 1"
  then obtain i j where ij: "i \<le> j" "j < length secs" "secs ! j - secs ! i \<le> 300" "10 \<le> j - i + 1"
    by blast
  from trailing_count_span [OF assms ij(1,2,3)] ij(4) have "10 \<le> trailing_count secs j"
    by simp
  with ij(2) show "\<exists>r<length secs. 10 \<le> trailing_count secs r" by blast
next
  assume "\<exists>r<length secs. 10 \<le> trailing_count secs r"
  then obtain r where r: "r < length secs" "10 \<le> trailing_count secs r" by blast
  from trailing_count_least [OF assms r(1)] r
  show "\<exists>i j. i \<le> j \<and> j < length secs \<and> secs ! j - secs ! i \<le> 300 \<and> 10 \<le> j - i + 1"
    by (intro exI [of _ "Suc r - trailing_count secs r"] exI [of _ r]) simp
qed

lemma error_cluster_find:
  "error_cluster (ep, errs) =
     (let secs = sort (map timestamp_int errs)
      in case find (\<lambda>r. 10 \<le> trailing_count secs r) [0..<length secs] of
           None \<Rightarrow> []
         | Some r \<Rightarrow>
             [Error_cluster ep (secs ! (Suc r - trailing_count secs r)) (secs ! r)
                (trailing_count secs r)
                (if trailing_count secs r > 50 then Critical else High)])"
proof (cases "errs = []")
  case True
  then show ?thesis by (simp add: error_cluster_def)
next
  case False
  define secs where "secs = sort (map timestamp_int errs)"
  have s: "sorted secs" by (simp add: secs_def)
  have scan: "cluster_scan secs 0 0 =
           (case find (\<lambda>r. 10 \<le> trailing_count secs r) [0..<length secs] of
              None \<Rightarrow> None
            | Some r \<Rightarrow> Some (Suc r - trailing_count secs r, r))"
    by (rule cluster_scan_first [OF s]) simp_all
  show ?thesis
  proof (cases "find (\<lambda>r. 10 \<le> trailing_count secs r) [0..<length secs]")
    case None
    with False scan show ?thesis
      by (simp add: error_cluster_def secs_def [symmetric])
  next
    case (Some r)
    from trailing_count_bounds [of secs r]
    have "r - (Suc r - trailing_count secs r) + 1 = trailing_count secs r"
      by linarith
    with Some False scan trailing_count_bounds [of secs r] show ?thesis
      by (auto simp: error_cluster_def secs_def [symmetric])
  qed
qed

lemma error_cluster_ten:
  "error_cluster (ep, errs) = [] \<or> (\<exists>a b. error_cluster (ep, errs) = [Error_cluster ep a b 10 High])"
proof (cases "errs = []")
  case True
  then show ?thesis by (simp add: error_cluster_def)
next
  case False
  show ?thesis
  proof (cases "cluster_scan (sort (map timestamp_int errs)) 0 0")
    case None
    with False show ?thesis by (simp add: error_cluster_def)
  next
    case (Some p)
    obtain l r where p: "p = (l, r)" by (cases p)
    from cluster_scan_ten [of 0 0 "sort (map timestamp_int errs)" l r] Some p
    have "r - l + 1 = 10" by simp
    with False Some p show ?thesis by (simp add: error_cluster_def Let_def)
  qed
qed

text \<open>
  Claim C4, amended: the spans are measured between the epoch seconds of the error
  timestamps (\<open>secs\<close>, each timestamp truncated to a whole second, in ascending order).
  If some span of at most 300 of these seconds holds at least 10 errors, exactly one
  error cluster is emitted for the endpoint: that of the first position \<open>r\<close>, in scan
  order, whose trailing window reaches 10 errors, with the two ends of the window, its count,
  and severity critical if the count exceeds 50 and high otherwise. If there is no such span,
  no error cluster is emitted.
\<close>

theorem error_cluster_first_window:
  "(let secs = sort (map timestamp_int errs) in
    if \<exists>i j. i \<le> j \<and> j < length secs \<and> secs ! j - secs ! i \<le> 300 \<and> 10 \<le> j - i + 1
    then \<exists>l r. error_cluster (ep, errs) =
                 [Error_cluster ep (secs ! l) (secs ! r) (r - l + 1)
                    (if r - l + 1 > 50 then Critical else High)]
          \<and> l \<le> r \<and> r < length secs \<and> 10 \<le> r - l + 1 \<and> secs ! r - secs ! l \<le> 300
          \<and> trailing_count secs r = r - l + 1
          \<and> (\<forall>r'<r. trailing_count secs r' < 10)
    else error_cluster (ep, errs) = [])"
proof -
  define secs where "secs = sort (map timestamp_int errs)"
  have s: "sorted secs" by (simp add: secs_def)
  let ?P = "\<lambda>r. 10 \<le> trailing_count secs r"
  have ec: "error_cluster (ep, errs) =
     (case find ?P [0..<length secs] of
        None \<Rightarrow> []
      | Some r \<Rightarrow>
          [Error_cluster ep (secs ! (Suc r - trailing_count secs r)) (secs ! r)
             (trailing_count secs r)
             (if trailing_count secs r > 50 then Critical else High)])"
    unfolding error_cluster_find secs_def Let_def by (rule refl)
  have "if \<exists>i j. i \<le> j \<and> j < length secs \<and> secs ! j - secs ! i \<le> 300 \<and> 10 \<le> j - i + 1
    then \<exists>l r. error_cluster (ep, errs) =
                 [Error_cluster ep (secs ! l) (secs ! r) (r - l + 1)
                    (if r - l + 1 > 50 then Critical else High)]
          \<and> l \<le> r \<and> r < length secs \<and> 10 \<le> r - l + 1 \<and> secs ! r - secs ! l \<le> 300
          \<and> trailing_count secs r = r - l + 1
          \<and> (\<forall>r'<r. trailing_count secs r' < 10)
    else error_cluster (ep, errs) = []"
  proof (cases "\<exists>r<length secs. ?P r")
    case True
    then have "find ?P [0..<length secs] \<noteq> None"
      by (auto simp: find_None_iff)
    then obtain r where f: "find ?P [0..<length secs] = Some r" by blast
    then have r: "r < length secs" "?P r" "\<forall>r'<r. \<not> ?P r'"
      by (auto simp: find_Some_iff)
    define l where "l = Suc r - trailing_count secs r"
    from trailing_count_least [OF s r(1)]
    have l: "l \<le> r" "secs ! r - secs ! l \<le> 300" "trailing_count secs r = r - l + 1"
      unfolding l_def by blast+
    have "error_cluster (ep, errs) =
            [Error_cluster ep (secs ! l) (secs ! r) (r - l + 1)
               (if r - l + 1 > 50 then Critical else High)]"
    proof -
      have idx: "Suc r - trailing_count secs r = l" by (simp add: l_def)
      show ?thesis
        unfolding ec f option.case idx by (simp only: l(3))
    qed
    moreover have "\<forall>r'<r. trailing_count secs r' < 10"
      using r(3) by (simp add: not_le)
    ultimately have "\<exists>l r. error_cluster (ep, errs) =
                 [Error_cluster ep (secs ! l) (secs ! r) (r - l + 1)
                    (if r - l + 1 > 50 then Critical else High)]
          \<and> l \<le> r \<and> r < length secs \<and> 10 \<le> r - l + 1 \<and> secs ! r - secs ! l \<le> 300
          \<and> trailing_count secs r = r - l + 1
          \<and> (\<forall>r'<r. trailing_count secs r' < 10)"
      using l r(1,2) by (intro exI [of _ l] exI [of _ r]) simp
    moreover from True have "\<exists>i j. i \<le> j \<and> j < length secs \<and> secs ! j - secs ! i \<le> 300 \<and> 10 \<le> j - i + 1"
      using span_iff_trailing [OF s] by simp
    ultimately show ?thesis by simp
  next
    case False
    then have "find ?P [0..<length secs] = None"
      by (auto simp: find_None_iff)
    then have "error_cluster (ep, errs) = []"
      unfolding ec by simp
    moreover from False have "\<not> (\<exists>i j. i \<le> j \<and> j < length secs \<and> secs ! j - secs ! i \<le> 300 \<and> 10 \<le> j - i + 1)"
      using span_iff_trailing [OF s] by simp
    ultimately show ?thesis by simp
  qed
  then show ?thesis
    unfolding secs_def Let_def .
qed

theorem error_cluster_first_window_witness:
  "error_cluster (KStr ''/api/pay'', ten_errors) =
     [Error_cluster (KStr ''/api/pay'') 1736935200 1736935500 10 High]
   \<and> error_cluster (KStr ''/api/pay'', [utc_time 10 0 0 0]) = []"
proof -
  have a: "error_cluster (KStr ''/api/pay'', ten_errors) =
     [Error_cluster (KStr ''/api/pay'') 1736935200 1736935500 10 High]"
    by code_simp
  have b: "\<not> (\<exists>i j. i \<le> j \<and> j < length (sort (map timestamp_int [utc_time 10 0 0 0]))
             \<and> sort (map timestamp_int [utc_time 10 0 0 0]) ! j - sort (map timestamp_int [utc_time 10 0 0 0]) ! i \<le> 300
             \<and> 10 \<le> j - i + 1)"
    by auto
  from error_cluster_first_window [of "[utc_time 10 0 0 0]" "KStr ''/api/pay''"] b
  have "error_cluster (KStr ''/api/pay'', [utc_time 10 0 0 0]) = []"
    unfolding Let_def by (simp only: if_False)
  with a show ?thesis by simp
qed

text \<open>
  Claim C4 as stated fails on timestamps with fractions of a second. The ten errors of
  \<open>ten_errors\<close> span 300.8 seconds, so no span of 300 seconds holds ten of them; their epoch
  seconds span exactly 300, and the cluster is reported.
\<close>

theorem error_cluster_without_span:
  "error_cluster (KStr ''/api/pay'', ten_errors) =
     [Error_cluster (KStr ''/api/pay'') 1736935200 1736935500 10 High]
   \<and> \<not> span_of_ten ten_errors"
  by code_simp

subsection \<open>The kinds of anomaly each detector emits\<close>

lemma collect_all:
  assumes "collect f xs = Inr ys" and "\<And>x zs. f x = Inr zs \<Longrightarrow> \<forall>z\<in>set zs. P z"
  shows "\<forall>y\<in>set ys. P y"
  using assms(1)
proof (induction xs arbitrary: ys)
  case Nil
  then show ?case by simp
next
  case (Cons x xs)
  from Cons.prems obtain zs ws where z: "f x = Inr zs" and w: "collect f xs = Inr ws" and y: "ys = zs @ ws"
    by (auto simp: bind_err_eq_Inr)
  from assms(2) [OF z] Cons.IH [OF w] y show ?case by auto
qed

lemma request_spike_kind:
  assumes "request_spike p = Inr zs"
  shows "\<forall>z\<in>set zs. is_request_spike z"
proof -
  obtain ep tms where p: "p = (ep, tms)" by (cases p)
  show ?thesis
    using assms unfolding p request_spike_def Let_def prod.case
    by (auto simp: bind_err_eq_Inr split: if_splits list.splits)
qed

lemma response_degradation_kind:
  "z \<in> set (response_degradation p) \<Longrightarrow> \<not> is_error_cluster z \<and> \<not> is_unusual_user z \<and> \<not> is_request_spike z"
  by (cases p) (auto simp: response_degradation_def Let_def split: option.splits if_splits)

lemma unusual_user_kind:
  assumes "unusual_user uc = Inr zs"
  shows "\<forall>z\<in>set zs. is_unusual_user z"
  using assms
  by (auto simp: unusual_user_def split: option.splits prod.splits if_splits)

lemma error_cluster_kind:
  assumes "z \<in> set (error_cluster p)"
  shows "\<exists>a b. z = Error_cluster (fst p) a b 10 High"
proof -
  obtain ep errs where p: "p = (ep, errs)" by (cases p)
  from error_cluster_ten [of ep errs] assms show ?thesis
    unfolding p by auto
qed

lemma analyze_Inr:
  assumes "analyze_api_logs fromiso (Some logs) = Inr r"
  obtains a where "run_events init_acc (events fromiso logs) = Inr a" and "build_report a = Inr r"
  using assms by (auto simp: analyze_events bind_err_eq_Inr)

text \<open>
  Claim C10. Every error cluster in a report has \<open>error_count\<close> 10 and severity high: the
  scan stops at the first window of at least 10 errors, and the window grows by one
  position at a time.
\<close>

theorem error_cluster_count_is_ten:
  assumes "analyze_api_logs fromiso (Some logs) = Inr r"
    and "Error_cluster ep a b n sev \<in> set (anomalies r)"
  shows "n = 10 \<and> sev = High"
proof -
  from assms(1) obtain acc where rep: "build_report acc = Inr r"
    by (rule analyze_Inr)
  from build_report_Inr [OF rep] assms(2)
  obtain spikes unusual where
    s: "collect request_spike (per_endpoint_timestamps acc) = Inr spikes" and
    u: "unusual_user (user_counts acc) = Inr unusual" and
    an: "anomalies r =
           spikes @ concat (map response_degradation (endpoint_info acc))
             @ concat (map error_cluster (per_endpoint_errors acc)) @ unusual"
    by (auto simp: empty_report_def)
  let ?z = "Error_cluster ep a b n sev"
  have 1: "?z \<notin> set spikes"
    using collect_all [OF s, of is_request_spike] request_spike_kind by fastforce
  have 2: "?z \<notin> set unusual"
    using unusual_user_kind [OF u] by fastforce
  have 3: "?z \<notin> set (concat (map response_degradation (endpoint_info acc)))"
    using response_degradation_kind [of ?z] by auto
  from assms(2) 1 2 3 have "?z \<in> set (concat (map error_cluster (per_endpoint_errors acc)))"
    unfolding an by simp
  then obtain p where "?z \<in> set (error_cluster p)" by auto
  from error_cluster_kind [OF this] show ?thesis by simp
qed

theorem error_cluster_count_is_ten_witness:
  "\<exists>r. analyze_api_logs fromisoformat (Some cluster_logs) = Inr r
      \<and> Error_cluster (KStr ''/api/pay'') 1736935200 1736935500 10 High \<in> set (anomalies r)"
proof -
  have run: "map_sum id anomalies (analyze_api_logs fromisoformat (Some cluster_logs)) =
          Inr [Error_cluster (KStr ''/api/pay'') 1736935200 1736935500 10 High,
               Unusual_user_behavior (KStr ''anonymous'') 11 High]"
    by code_simp
  then obtain r where r: "analyze_api_logs fromisoformat (Some cluster_logs) = Inr r"
    and an: "anomalies r = [Error_cluster (KStr ''/api/pay'') 1736935200 1736935500 10 High,
               Unusual_user_behavior (KStr ''anonymous'') 11 High]"
    by (cases "analyze_api_logs fromisoformat (Some cluster_logs)") auto
  have mem: "Error_cluster (KStr ''/api/pay'') 1736935200 1736935500 10 High \<in> set (anomalies r)"
    by (simp add: an)
  from error_cluster_count_is_ten [OF r mem] r mem show ?thesis by blast
qed

subsection \<open>Request spikes\<close>






lemma length_window_counts: "sorted secs \<Longrightarrow> length (window_counts secs) = length secs"
  by (simp add: window_counts_trailing)




subsection \<open>Appending a valid record\<close>








subsection \<open>The busiest user\<close>





















end
